theory Spec2Isabelle
  imports Complex_Main "HOL-Library.Word"
begin

unbundle bit_operations_syntax

section \<open>The BLE data collector of the Seismi demo\<close>

text \<open>
  A shallow embedding of the class \<open>BLEDataCollector\<close> (the version with the two sliding
  buffers \<open>accDataPoints\<close> and \<open>ppgDataPoints\<close>).

  JavaScript numbers are modelled exactly: a byte read from the \<open>DataView\<close> is a \<open>nat\<close>
  below 256, \<open>Date.now()\<close> is an \<open>int\<close> (milliseconds since the epoch), a decoded sample
  is an \<open>int\<close>, and a timestamp is a \<open>rat\<close> (the PPG period is 2.5 ms). Every number the
  collector computes is an integer or a half-integer; for a clock reading of a magnitude
  below \<open>2^51\<close> they all lie where the double arithmetic of the source is exact.

  Arrays are objects: the two buffers are references into a store of arrays, so that
  \<open>push\<close> (in place) and \<open>slice\<close> (a new array) can be told apart.
\<close>

subsection \<open>Constants\<close>

definition PACKET_TYPE_ACC :: nat where
  "PACKET_TYPE_ACC = 1"

definition PACKET_TYPE_PPG :: nat where
  "PACKET_TYPE_PPG = 2"

definition ACC_SAMPLE_PERIOD_MS :: rat where
  "ACC_SAMPLE_PERIOD_MS = 16"

definition PPG_SAMPLE_PERIOD_MS :: rat where
  "PPG_SAMPLE_PERIOD_MS = 5 / 2"

definition BUFFER_DURATION_MS :: rat where
  "BUFFER_DURATION_MS = 60 * 1000"

subsection \<open>Data\<close>

datatype error = RangeError

type_synonym DataView = "8 word list"

type_synonym ref = nat

record SensorDataPoint =
  timestamp_ms :: rat
  sample_value :: int
  sample_type :: nat

text \<open>A field of a CSV row: \<open>(string | number)\<close>.\<close>

datatype cell = Str string | Num rat

text \<open>
  The fields of the collector that the handler, the trims, the accessors, \<open>stop\<close> and the
  export read or write. \<open>connected\<close> stands for \<open>device?.gatt?.connected\<close>;
  \<open>heap\<close> is the store of the arrays of data points and \<open>nextRef\<close> the next unused
  reference. \<open>genesisTS\<close> is an open-ended object keyed by the packet type, where
  \<open>None\<close> is a \<open>null\<close> or missing entry. The handles of the transport, the file-name
  \<open>prefix\<close> (read by no live code) and the registered callback are left out.
\<close>

record BLEDataCollector =
  connected :: bool
  genesisTS :: "nat \<Rightarrow> int option"
  csvRows :: "cell list list"
  accDataPoints :: ref
  ppgDataPoints :: ref
  heap :: "ref \<Rightarrow> SensorDataPoint list"
  nextRef :: ref
  collectingType :: "nat option"

text \<open>The state after the constructor: two distinct empty arrays, no genesis, an empty log.\<close>

definition newCollector :: BLEDataCollector where
  "newCollector =
     \<lparr> connected = False,
       genesisTS = (\<lambda>_. None),
       csvRows = [],
       accDataPoints = 0,
       ppgDataPoints = 1,
       heap = (\<lambda>_. []),
       nextRef = 2,
       collectingType = None \<rparr>"

subsection \<open>DataView reads\<close>

definition byteLength :: "DataView \<Rightarrow> nat" where
  "byteLength dv = length dv"

definition getUint8 :: "DataView \<Rightarrow> nat \<Rightarrow> error + nat" where
  "getUint8 dv off =
     (if off < byteLength dv then Inr (unat (dv ! off)) else Inl RangeError)"

definition getUint16 :: "DataView \<Rightarrow> nat \<Rightarrow> bool \<Rightarrow> error + nat" where
  "getUint16 dv off littleEndian =
     (if off + 2 \<le> byteLength dv
      then Inr (if littleEndian
                then unat (dv ! off) + 256 * unat (dv ! (off + 1))
                else 256 * unat (dv ! off) + unat (dv ! (off + 1)))
      else Inl RangeError)"

subsection \<open>The 32-bit operators\<close>

text \<open>
  \<open>|\<close> and \<open><<\<close> convert their operands to 32-bit integers, work on the bits and give
  a signed 32-bit result; the shift count is taken modulo 32.
\<close>

definition bitOr :: "int \<Rightarrow> int \<Rightarrow> int" where
  "bitOr x y = sint ((word_of_int x :: 32 word) OR word_of_int y)"

definition shiftLeft :: "int \<Rightarrow> nat \<Rightarrow> int" where
  "shiftLeft x n = sint (push_bit (n mod 32) (word_of_int x :: 32 word))"

text \<open>The 24-bit little-endian sample at \<open>offset\<close>; the three reads happen left to right.\<close>

definition readSample :: "DataView \<Rightarrow> nat \<Rightarrow> error + int" where
  "readSample dv offset =
     (case getUint8 dv offset of
        Inl e \<Rightarrow> Inl e
      | Inr b0 \<Rightarrow>
          (case getUint8 dv (offset + 1) of
             Inl e \<Rightarrow> Inl e
           | Inr b1 \<Rightarrow>
               (case getUint8 dv (offset + 2) of
                  Inl e \<Rightarrow> Inl e
                | Inr b2 \<Rightarrow>
                    Inr (bitOr (bitOr (int b0) (shiftLeft (int b1) 8))
                           (shiftLeft (int b2) 16)))))"

subsection \<open>Arrays\<close>

text \<open>\<open>Array.prototype.findIndex\<close>: the first index whose element satisfies \<open>P\<close>, or -1.\<close>

fun findIndexFrom :: "int \<Rightarrow> ('a \<Rightarrow> bool) \<Rightarrow> 'a list \<Rightarrow> int" where
  "findIndexFrom k P [] = -1"
| "findIndexFrom k P (x # xs) = (if P x then k else findIndexFrom (k + 1) P xs)"

definition findIndex :: "('a \<Rightarrow> bool) \<Rightarrow> 'a list \<Rightarrow> int" where
  "findIndex P xs = findIndexFrom 0 P xs"

text \<open>\<open>Array.prototype.slice(start)\<close>: a negative \<open>start\<close> counts from the end.\<close>

definition slice :: "'a list \<Rightarrow> int \<Rightarrow> 'a list" where
  "slice xs start =
     (if start < 0 then drop (nat (max 0 (int (length xs) + start))) xs
      else drop (nat start) xs)"

text \<open>\<open>arr.push(x)\<close> on the array behind reference \<open>r\<close>: the array object is updated in place.\<close>

definition push :: "ref \<Rightarrow> SensorDataPoint \<Rightarrow> BLEDataCollector \<Rightarrow> BLEDataCollector" where
  "push r x s = s\<lparr>heap := (heap s)(r := heap s r @ [x])\<rparr>"

text \<open>Reading an array through a reference somebody holds.\<close>

definition deref :: "BLEDataCollector \<Rightarrow> ref \<Rightarrow> SensorDataPoint list" where
  "deref s r = heap s r"

subsection \<open>Accessors\<close>

definition getAccData :: "BLEDataCollector \<Rightarrow> ref" where
  "getAccData s = accDataPoints s"

definition getPpgData :: "BLEDataCollector \<Rightarrow> ref" where
  "getPpgData s = ppgDataPoints s"

subsection \<open>Trimming the sliding buffers\<close>

definition trimAccBuffer :: "BLEDataCollector \<Rightarrow> BLEDataCollector" where
  "trimAccBuffer s =
     (let arr = heap s (accDataPoints s) in
      if length arr = 0 then s
      else
        let latestTs = timestamp_ms (arr ! (length arr - 1));
            cutoffTs = latestTs - BUFFER_DURATION_MS;
            firstValidIndex = findIndex (\<lambda>d. timestamp_ms d \<ge> cutoffTs) arr
        in if firstValidIndex > 0
           then s\<lparr>heap := (heap s)(nextRef s := slice arr firstValidIndex),
                  accDataPoints := nextRef s,
                  nextRef := Suc (nextRef s)\<rparr>
           else s)"

definition trimPpgBuffer :: "BLEDataCollector \<Rightarrow> BLEDataCollector" where
  "trimPpgBuffer s =
     (let arr = heap s (ppgDataPoints s) in
      if length arr = 0 then s
      else
        let latestTs = timestamp_ms (arr ! (length arr - 1));
            cutoffTs = latestTs - BUFFER_DURATION_MS;
            firstValidIndex = findIndex (\<lambda>d. timestamp_ms d \<ge> cutoffTs) arr
        in if firstValidIndex > 0
           then s\<lparr>heap := (heap s)(nextRef s := slice arr firstValidIndex),
                  ppgDataPoints := nextRef s,
                  nextRef := Suc (nextRef s)\<rparr>
           else s)"

subsection \<open>The notification handler\<close>

text \<open>\<open>!x\<close> on an entry of \<open>genesisTS\<close>: true for \<open>null\<close>, a missing entry and 0.\<close>

definition falsy :: "int option \<Rightarrow> bool" where
  "falsy g = (case g of None \<Rightarrow> True | Some v \<Rightarrow> v = 0)"

text \<open>\<open>x ?? 0\<close>\<close>

definition orZero :: "int option \<Rightarrow> int" where
  "orZero g = (case g of None \<Rightarrow> 0 | Some v \<Rightarrow> v)"

text \<open>\<open>Math.floor((dataView.byteLength - 3) / 3)\<close>\<close>

definition sampleCount :: "DataView \<Rightarrow> int" where
  "sampleCount dv = \<lfloor>(rat_of_nat (byteLength dv) - 3) / 3\<rfloor>"

text \<open>
  One round of the loop over the samples, for the index \<open>i\<close>. A \<open>RangeError\<close> of a read
  would leave the handler at that point; \<open>handleNotification_total\<close> below shows that no
  read of the handler is out of range.
\<close>

definition loopBody ::
  "DataView \<Rightarrow> nat \<Rightarrow> nat \<Rightarrow> nat \<Rightarrow> BLEDataCollector \<Rightarrow> error + BLEDataCollector" where
  "loopBody dv packetType packetCounter i s =
     (let offset = 3 + i * 3 in
      case readSample dv offset of
        Inl e \<Rightarrow> Inl e
      | Inr v \<Rightarrow>
        let s1 =
              (if packetType = PACKET_TYPE_ACC then
                 let ts = rat_of_int (orZero (genesisTS s PACKET_TYPE_ACC)) +
                          rat_of_nat (packetCounter * 5 + i) * ACC_SAMPLE_PERIOD_MS
                 in push (accDataPoints s)
                      \<lparr>timestamp_ms = ts, sample_value = v, sample_type = PACKET_TYPE_ACC\<rparr>
                      (s\<lparr>csvRows := csvRows s @ [[Num ts, Num (rat_of_int v)]]\<rparr>)
               else s);
            s2 =
              (if packetType = PACKET_TYPE_PPG then
                 let ts = rat_of_int (orZero (genesisTS s1 PACKET_TYPE_PPG)) +
                          rat_of_nat (packetCounter * 5 + i) * PPG_SAMPLE_PERIOD_MS
                 in push (ppgDataPoints s1)
                      \<lparr>timestamp_ms = ts, sample_value = v, sample_type = PACKET_TYPE_PPG\<rparr>
                      (s1\<lparr>csvRows := csvRows s1 @ [[Num ts, Num (rat_of_int v)]]\<rparr>)
               else s1)
        in Inr s2)"

function sampleLoop ::
  "DataView \<Rightarrow> nat \<Rightarrow> nat \<Rightarrow> int \<Rightarrow> nat \<Rightarrow> BLEDataCollector \<Rightarrow> error + BLEDataCollector" where
  "sampleLoop dv packetType packetCounter n i s =
     (if int i < n
      then (case loopBody dv packetType packetCounter i s of
              Inl e \<Rightarrow> Inl e
            | Inr s' \<Rightarrow> sampleLoop dv packetType packetCounter n (i + 1) s')
      else Inr s)"
  by pat_completeness auto
termination
  by (relation "measure (\<lambda>(dv, packetType, packetCounter, n, i, s). nat (n - int i))") auto

declare sampleLoop.simps [simp del]

text \<open>
  The block of \<open>handleNotification\<close> that sets the genesis of the packet's type, pushes
  the header row and notes the type, when the entry of \<open>genesisTS\<close> is falsy.
\<close>

definition genesisCheck :: "int \<Rightarrow> nat \<Rightarrow> BLEDataCollector \<Rightarrow> BLEDataCollector" where
  "genesisCheck now packetType s =
     (if falsy (genesisTS s packetType) then
        s\<lparr>genesisTS := (genesisTS s)(packetType := Some now),
          csvRows := csvRows s @
            [if packetType = PACKET_TYPE_ACC
             then [Str ''timestamp_ms'', Str ''magnitude_ug'']
             else [Str ''timestamp_ms'', Str ''green'']],
          collectingType := Some packetType\<rparr>
      else s)"

text \<open>
  \<open>handleNotification\<close>, with the reading of \<open>Date.now()\<close> as the argument \<open>now\<close>. The
  callback of \<open>onData\<close> is code of the caller and is not part of the collector's state;
  the handler hands it the reference \<open>accDataPoints\<close> after the trims.
\<close>

definition handleNotification ::
  "int \<Rightarrow> DataView \<Rightarrow> BLEDataCollector \<Rightarrow> error + BLEDataCollector" where
  "handleNotification now dv s =
     (if byteLength dv < 3 then Inr s
      else
        (case getUint8 dv 0 of
           Inl e \<Rightarrow> Inl e
         | Inr packetType \<Rightarrow>
             (case getUint16 dv 1 True of
                Inl e \<Rightarrow> Inl e
              | Inr packetCounter \<Rightarrow>
                  if sampleCount dv \<le> 0 then Inr s
                  else
                    let s1 = genesisCheck now packetType s
                    in (case sampleLoop dv packetType packetCounter (sampleCount dv) 0 s1 of
                          Inl e \<Rightarrow> Inl e
                        | Inr s2 \<Rightarrow> Inr (trimPpgBuffer (trimAccBuffer s2))))))"

subsection \<open>Stop and export\<close>

definition stop :: "BLEDataCollector \<Rightarrow> BLEDataCollector" where
  "stop s = (if connected s then s\<lparr>connected := False\<rparr> else s)"

text \<open>\<open>Array.prototype.join\<close> on strings.\<close>

fun join :: "string \<Rightarrow> string list \<Rightarrow> string" where
  "join sep [] = []"
| "join sep [x] = x"
| "join sep (x # y # ys) = x @ sep @ join sep (y # ys)"

definition digitChar :: "nat \<Rightarrow> char" where
  "digitChar d = ''0123456789'' ! d"

fun natToString :: "nat \<Rightarrow> string" where
  "natToString n =
     (if n < 10 then [digitChar n] else natToString (n div 10) @ [digitChar (n mod 10)])"

declare natToString.simps [simp del]

fun fracDigits :: "nat \<Rightarrow> rat \<Rightarrow> string" where
  "fracDigits 0 f = []"
| "fracDigits (Suc k) f =
     (if f = 0 then []
      else digitChar (nat \<lfloor>f * 10\<rfloor>) # fracDigits k (f * 10 - rat_of_int \<lfloor>f * 10\<rfloor>))"

text \<open>
  The string of a number, for the numbers the log holds: a magnitude below \<open>10^21\<close> and a
  decimal expansion that ends (integers print as their digits, a half as \<open>.5\<close>).
\<close>

definition numToString :: "rat \<Rightarrow> string" where
  "numToString r =
     (if r < 0 then ''-'' else []) @ natToString (nat \<lfloor>\<bar>r\<bar>\<rfloor>) @
     (let f = \<bar>r\<bar> - rat_of_int \<lfloor>\<bar>r\<bar>\<rfloor>
      in if f = 0 then [] else ''.'' @ fracDigits 20 f)"

definition cellToString :: "cell \<Rightarrow> string" where
  "cellToString c = (case c of Str t \<Rightarrow> t | Num r \<Rightarrow> numToString r)"

text \<open>The text that \<open>downloadCSV\<close> builds (and prints).\<close>

definition downloadCSV :: "BLEDataCollector \<Rightarrow> string" where
  "downloadCSV s = join [CHR 0x0A] (map (\<lambda>r. join '','' (map cellToString r)) (csvRows s))"

subsection \<open>Runs of the collector\<close>

text \<open>
  The notifications of a session, each with the clock reading at its arrival, are handled
  one after the other.
\<close>

fun handleNotifications ::
  "(int \<times> DataView) list \<Rightarrow> BLEDataCollector \<Rightarrow> error + BLEDataCollector" where
  "handleNotifications [] s = Inr s"
| "handleNotifications ((now, dv) # ns) s =
     (case handleNotification now dv s of
        Inl e \<Rightarrow> Inl e
      | Inr s' \<Rightarrow> handleNotifications ns s')"

text \<open>
  The states a collector can be in: it starts as constructed, handles notifications, is
  stopped, and its link comes up or drops.
\<close>

inductive reachable :: "BLEDataCollector \<Rightarrow> bool" where
  constructed: "reachable newCollector"
| notified: "reachable s \<Longrightarrow> handleNotification now dv s = Inr s' \<Longrightarrow> reachable s'"
| stopped: "reachable s \<Longrightarrow> reachable (stop s)"
| link: "reachable s \<Longrightarrow> reachable (s\<lparr>connected := b\<rparr>)"

subsection \<open>Invariants of the store\<close>

text \<open>An array whose first entry is inside the window that ends at its last entry.\<close>

definition withinWindow :: "SensorDataPoint list \<Rightarrow> bool" where
  "withinWindow arr =
     (arr = [] \<or> timestamp_ms (last arr) - BUFFER_DURATION_MS \<le> timestamp_ms (hd arr))"

text \<open>
  The two buffers are distinct allocated arrays, and each is as its trim leaves it.
\<close>

definition consistent :: "BLEDataCollector \<Rightarrow> bool" where
  "consistent s =
     (accDataPoints s \<noteq> ppgDataPoints s \<and>
      accDataPoints s < nextRef s \<and>
      ppgDataPoints s < nextRef s \<and>
      withinWindow (heap s (accDataPoints s)) \<and>
      withinWindow (heap s (ppgDataPoints s)))"

section \<open>Decoding a sample\<close>

lemma or_low_high:
  fixes a b :: int
  assumes "0 \<le> a" "a < 2 ^ n"
  shows "a OR push_bit n b = a + push_bit n b"
proof -
  have a: "take_bit n a = a" using assms by (simp add: take_bit_int_eq_self)
  have "\<not> bit a k \<or> \<not> bit (push_bit n b) k" for k
  proof (cases "k < n")
    case True then show ?thesis by (simp add: bit_push_bit_iff)
  next
    case False
    have "bit a k = bit (take_bit n a) k" by (simp add: a)
    with False show ?thesis by (simp add: bit_take_bit_iff)
  qed
  then show ?thesis by (simp add: disjunctive_add)
qed

lemma sint32_small:
  "- (2 ^ 31) \<le> x \<Longrightarrow> x < 2 ^ 31 \<Longrightarrow> sint (word_of_int x :: 32 word) = x"
  by (simp add: sint_sbintrunc' signed_take_bit_int_eq_self)

lemma shiftLeft_8:
  assumes "0 \<le> x" "x < 256"
  shows "shiftLeft x 8 = 256 * x"
proof -
  have "shiftLeft x 8 = sint (word_of_int (256 * x) :: 32 word)"
    by (simp add: shiftLeft_def push_bit_eq_mult mult.commute)
  also have "\<dots> = 256 * x"
    using assms by (intro sint32_small) auto
  finally show ?thesis .
qed

lemma shiftLeft_16:
  assumes "0 \<le> x" "x < 256"
  shows "shiftLeft x 16 = 65536 * x"
proof -
  have "shiftLeft x 16 = sint (word_of_int (65536 * x) :: 32 word)"
    by (simp add: shiftLeft_def push_bit_eq_mult mult.commute)
  also have "\<dots> = 65536 * x"
    using assms by (intro sint32_small) auto
  finally show ?thesis .
qed

lemma bitOr_disjoint:
  assumes "0 \<le> x" "x < 2 ^ n" "0 \<le> y" "x + 2 ^ n * y < 2 ^ 31"
  shows "bitOr x (2 ^ n * y) = x + 2 ^ n * y"
proof -
  have "(word_of_int x :: 32 word) OR word_of_int (2 ^ n * y) = word_of_int (x OR push_bit n y)"
    by (simp only: word_wi_log_defs push_bit_eq_mult mult.commute)
  also have "x OR push_bit n y = x + 2 ^ n * y"
    using or_low_high [OF assms(1,2), of y] by (simp add: push_bit_eq_mult)
  finally have "bitOr x (2 ^ n * y) = sint (word_of_int (x + 2 ^ n * y) :: 32 word)"
    by (simp only: bitOr_def)
  also have "\<dots> = x + 2 ^ n * y"
  proof (rule sint32_small)
    have "0 \<le> x + 2 ^ n * y" using assms by simp
    moreover have "- (2 ^ 31) \<le> (0::int)" by simp
    ultimately show "- (2 ^ 31) \<le> x + 2 ^ n * y" by (rule order_trans [rotated])
    show "x + 2 ^ n * y < 2 ^ 31" by fact
  qed
  finally show ?thesis .
qed

lemma decode24:
  assumes "b0 < 256" "b1 < 256" "b2 < 256"
  shows "bitOr (bitOr (int b0) (shiftLeft (int b1) 8)) (shiftLeft (int b2) 16)
         = int b0 + 256 * int b1 + 65536 * int b2"
proof -
  have 1: "shiftLeft (int b1) 8 = 2 ^ 8 * int b1" using assms by (simp add: shiftLeft_8)
  have 2: "shiftLeft (int b2) 16 = 2 ^ 16 * int b2" using assms by (simp add: shiftLeft_16)
  have 3: "bitOr (int b0) (2 ^ 8 * int b1) = int b0 + 2 ^ 8 * int b1"
    using assms by (intro bitOr_disjoint) auto
  have 4: "bitOr (int b0 + 2 ^ 8 * int b1) (2 ^ 16 * int b2)
            = (int b0 + 2 ^ 8 * int b1) + 2 ^ 16 * int b2"
    using assms by (intro bitOr_disjoint) auto
  show ?thesis unfolding 1 2 3 4 by simp
qed

lemma sampleCount_div: "sampleCount dv = (int (byteLength dv) - 3) div 3"
proof -
  have "(rat_of_nat (byteLength dv) - 3) / 3 = rat_of_int (int (byteLength dv) - 3) / rat_of_int 3"
    by simp
  then show ?thesis
    unfolding sampleCount_def by (simp only: floor_divide_of_int_eq)
qed

lemma sampleCount_offset:
  assumes "int i < sampleCount dv"
  shows "3 + i * 3 + 2 < byteLength dv"
  using assms unfolding sampleCount_div by linarith

lemma getUint8_in_range:
  "off < byteLength dv \<Longrightarrow> getUint8 dv off = Inr (unat (dv ! off))"
  by (simp add: getUint8_def)

lemma readSample_in_range:
  assumes "offset + 2 < byteLength dv"
  shows "readSample dv offset =
           Inr (int (unat (dv ! offset)) + 256 * int (unat (dv ! (offset + 1)))
                + 65536 * int (unat (dv ! (offset + 2))))"
proof -
  have b: "unat w < 256" for w :: "8 word"
    using unsigned_less [of w, where ?'a = nat] by simp
  have g: "getUint8 dv offset = Inr (unat (dv ! offset))"
    "getUint8 dv (offset + 1) = Inr (unat (dv ! (offset + 1)))"
    "getUint8 dv (offset + 2) = Inr (unat (dv ! (offset + 2)))"
    using assms by (simp_all add: getUint8_def)
  show ?thesis
    unfolding readSample_def g by (simp only: sum.case decode24 [OF b b b])
qed

lemma readSample_bounds:
  assumes "readSample dv offset = Inr v"
  shows "0 \<le> v \<and> v \<le> 2 ^ 24 - 1"
proof (cases "offset + 2 < byteLength dv")
  case True
  have b: "int (unat w) \<le> 255" for w :: "8 word"
    using unsigned_less [of w, where ?'a = int] by simp
  have "v = int (unat (dv ! offset)) + 256 * int (unat (dv ! (offset + 1)))
                + 65536 * int (unat (dv ! (offset + 2)))"
    using assms readSample_in_range [OF True] by simp
  then show ?thesis
    using b [of "dv ! offset"] b [of "dv ! (offset + 1)"] b [of "dv ! (offset + 2)"] by simp
next
  case False
  then have "getUint8 dv (offset + 2) = Inl RangeError" by (simp add: getUint8_def)
  then show ?thesis using assms by (simp add: readSample_def split: sum.splits)
qed

section \<open>Short packets\<close>

lemma handleNotification_short:
  assumes "byteLength dv < 3 \<or> sampleCount dv \<le> 0"
  shows "handleNotification now dv s = Inr s"
proof (cases "byteLength dv < 3")
  case True
  then show ?thesis by (simp add: handleNotification_def)
next
  case False
  with assms have "sampleCount dv \<le> 0" by simp
  with False show ?thesis
    by (simp add: handleNotification_def getUint8_def getUint16_def)
qed

text \<open>
  Claim C5. A notification shorter than 3 bytes, or with a sample count of 0 or less, returns
  without an error and leaves the whole collector as it was (the genesis entries, both
  buffers and the log among it).
\<close>

theorem short_packet_dropped:
  assumes "byteLength dv < 3 \<or> sampleCount dv \<le> 0"
  shows "handleNotification now dv s = Inr s"
  using assms by (rule handleNotification_short)

theorem short_packet_dropped_witness:
  "(byteLength [1, 7, 0, 5, 6] < 3 \<or> sampleCount [1, 7, 0, 5, 6] \<le> 0) \<and>
   handleNotification 1000 [1, 7, 0, 5, 6] newCollector = Inr newCollector"
proof -
  have h: "byteLength [1, 7, 0, 5, 6] < 3 \<or> sampleCount [1, 7, 0, 5, 6] \<le> 0"
    by (simp add: sampleCount_def byteLength_def)
  show ?thesis using h short_packet_dropped [OF h, of 1000 newCollector] by simp
qed

section \<open>Stopping\<close>

text \<open>
  Claim C8. \<open>stop\<close> changes nothing but the connection: the genesis entries, both buffers and
  the log stay, so the snapshot accessors and the export give what they gave before.
\<close>

theorem stop_keeps_data:
  "genesisTS (stop s) = genesisTS s \<and>
   accDataPoints (stop s) = accDataPoints s \<and>
   ppgDataPoints (stop s) = ppgDataPoints s \<and>
   heap (stop s) = heap s \<and>
   csvRows (stop s) = csvRows s \<and>
   getAccData (stop s) = getAccData s \<and>
   getPpgData (stop s) = getPpgData s \<and>
   deref (stop s) r = deref s r \<and>
   downloadCSV (stop s) = downloadCSV s"
  by (simp add: stop_def getAccData_def getPpgData_def deref_def downloadCSV_def)

section \<open>The loop over the samples\<close>

lemma types_distinct: "PACKET_TYPE_ACC \<noteq> PACKET_TYPE_PPG"
  by (simp add: PACKET_TYPE_ACC_def PACKET_TYPE_PPG_def)

lemma readSample_projr:
  assumes "int i < sampleCount dv"
  shows "readSample dv (3 + i * 3) = Inr (projr (readSample dv (3 + i * 3)))"
  using readSample_in_range [OF sampleCount_offset [OF assms]] by simp

lemma loopBody_acc:
  assumes "int i < sampleCount dv"
  shows "loopBody dv PACKET_TYPE_ACC c i s =
    Inr (s\<lparr>csvRows := csvRows s @
             [[Num (rat_of_int (orZero (genesisTS s PACKET_TYPE_ACC)) +
                    rat_of_nat (c * 5 + i) * ACC_SAMPLE_PERIOD_MS),
               Num (rat_of_int (projr (readSample dv (3 + i * 3))))]],
           heap := (heap s)(accDataPoints s := heap s (accDataPoints s) @
             [\<lparr>timestamp_ms = rat_of_int (orZero (genesisTS s PACKET_TYPE_ACC)) +
                    rat_of_nat (c * 5 + i) * ACC_SAMPLE_PERIOD_MS,
               sample_value = projr (readSample dv (3 + i * 3)),
               sample_type = PACKET_TYPE_ACC\<rparr>])\<rparr>)"
  unfolding loopBody_def Let_def
  by (subst readSample_projr [OF assms]) (simp add: types_distinct push_def)

lemma loopBody_ppg:
  assumes "int i < sampleCount dv"
  shows "loopBody dv PACKET_TYPE_PPG c i s =
    Inr (s\<lparr>csvRows := csvRows s @
             [[Num (rat_of_int (orZero (genesisTS s PACKET_TYPE_PPG)) +
                    rat_of_nat (c * 5 + i) * PPG_SAMPLE_PERIOD_MS),
               Num (rat_of_int (projr (readSample dv (3 + i * 3))))]],
           heap := (heap s)(ppgDataPoints s := heap s (ppgDataPoints s) @
             [\<lparr>timestamp_ms = rat_of_int (orZero (genesisTS s PACKET_TYPE_PPG)) +
                    rat_of_nat (c * 5 + i) * PPG_SAMPLE_PERIOD_MS,
               sample_value = projr (readSample dv (3 + i * 3)),
               sample_type = PACKET_TYPE_PPG\<rparr>])\<rparr>)"
  unfolding loopBody_def Let_def
  by (subst readSample_projr [OF assms]) (simp add: types_distinct [symmetric] push_def)

lemma loopBody_other:
  assumes "int i < sampleCount dv" "t \<noteq> PACKET_TYPE_ACC" "t \<noteq> PACKET_TYPE_PPG"
  shows "loopBody dv t c i s = Inr s"
  unfolding loopBody_def Let_def
  by (subst readSample_projr [OF assms(1)]) (simp add: assms)

lemma sampleLoop_other:
  assumes "n \<le> sampleCount dv" "t \<noteq> PACKET_TYPE_ACC" "t \<noteq> PACKET_TYPE_PPG"
  shows "sampleLoop dv t c n i s = Inr s"
  using assms
proof (induction dv t c n i s rule: sampleLoop.induct)
  case (1 dv t c n i s)
  show ?case
  proof (cases "int i < n")
    case True
    then have b: "loopBody dv t c i s = Inr s"
      using 1 by (intro loopBody_other) auto
    show ?thesis
      using True 1 b by (subst sampleLoop.simps) simp
  next
    case False
    then show ?thesis by (subst sampleLoop.simps) simp
  qed
qed

text \<open>The rows and the data points that the loop appends for an ACC packet.\<close>

lemma sampleLoop_acc:
  assumes "n \<le> sampleCount dv"
  shows "sampleLoop dv PACKET_TYPE_ACC c n i s =
    Inr (s\<lparr>csvRows := csvRows s @
             map (\<lambda>j. [Num (rat_of_int (orZero (genesisTS s PACKET_TYPE_ACC)) +
                            rat_of_nat (c * 5 + j) * ACC_SAMPLE_PERIOD_MS),
                       Num (rat_of_int (projr (readSample dv (3 + j * 3))))]) [i..<nat n],
           heap := (heap s)(accDataPoints s := heap s (accDataPoints s) @
             map (\<lambda>j. \<lparr>timestamp_ms = rat_of_int (orZero (genesisTS s PACKET_TYPE_ACC)) +
                            rat_of_nat (c * 5 + j) * ACC_SAMPLE_PERIOD_MS,
                       sample_value = projr (readSample dv (3 + j * 3)),
                       sample_type = PACKET_TYPE_ACC\<rparr>) [i..<nat n])\<rparr>)"
  using assms
proof (induction dv "PACKET_TYPE_ACC" c n i s rule: sampleLoop.induct)
  case (1 dv c n i s)
  show ?case
  proof (cases "int i < n")
    case True
    then have lt: "int i < sampleCount dv" using 1 by simp
    have upt: "[i..<nat n] = i # [i + 1..<nat n]"
      using True by (simp add: upt_conv_Cons)
    show ?thesis
      apply (subst sampleLoop.simps)
      apply (simp only: True if_True loopBody_acc [OF lt] sum.case)
      apply (subst "1.hyps" [OF True loopBody_acc [OF lt] "1.prems"])
      apply (simp add: upt)
      done
  next
    case False
    then show ?thesis by (subst sampleLoop.simps) simp
  qed
qed

text \<open>The rows and the data points that the loop appends for a PPG packet.\<close>

lemma sampleLoop_ppg:
  assumes "n \<le> sampleCount dv"
  shows "sampleLoop dv PACKET_TYPE_PPG c n i s =
    Inr (s\<lparr>csvRows := csvRows s @
             map (\<lambda>j. [Num (rat_of_int (orZero (genesisTS s PACKET_TYPE_PPG)) +
                            rat_of_nat (c * 5 + j) * PPG_SAMPLE_PERIOD_MS),
                       Num (rat_of_int (projr (readSample dv (3 + j * 3))))]) [i..<nat n],
           heap := (heap s)(ppgDataPoints s := heap s (ppgDataPoints s) @
             map (\<lambda>j. \<lparr>timestamp_ms = rat_of_int (orZero (genesisTS s PACKET_TYPE_PPG)) +
                            rat_of_nat (c * 5 + j) * PPG_SAMPLE_PERIOD_MS,
                       sample_value = projr (readSample dv (3 + j * 3)),
                       sample_type = PACKET_TYPE_PPG\<rparr>) [i..<nat n])\<rparr>)"
  using assms
proof (induction dv "PACKET_TYPE_PPG" c n i s rule: sampleLoop.induct)
  case (1 dv c n i s)
  show ?case
  proof (cases "int i < n")
    case True
    then have lt: "int i < sampleCount dv" using 1 by simp
    have upt: "[i..<nat n] = i # [i + 1..<nat n]"
      using True by (simp add: upt_conv_Cons)
    show ?thesis
      apply (subst sampleLoop.simps)
      apply (simp only: True if_True loopBody_ppg [OF lt] sum.case)
      apply (subst "1.hyps" [OF True loopBody_ppg [OF lt] "1.prems"])
      apply (simp add: upt)
      done
  next
    case False
    then show ?thesis by (subst sampleLoop.simps) simp
  qed
qed

section \<open>Trimming\<close>

lemma findIndexFrom_takeWhile:
  "findIndexFrom k P xs =
     (if \<exists>x\<in>set xs. P x then k + int (length (takeWhile (\<lambda>x. \<not> P x) xs)) else - 1)"
  by (induction xs arbitrary: k) auto

lemma findIndex_takeWhile:
  "findIndex P xs =
     (if \<exists>x\<in>set xs. P x then int (length (takeWhile (\<lambda>x. \<not> P x) xs)) else - 1)"
  by (simp add: findIndex_def findIndexFrom_takeWhile)

text \<open>What is left of a non-empty array: the elements from the first one inside the window.\<close>

lemma nth_last: "arr \<noteq> [] \<Longrightarrow> arr ! (length arr - Suc 0) = last arr"
  by (simp add: last_conv_nth)

lemma trim_dropWhile:
  fixes arr :: "SensorDataPoint list"
  assumes "arr \<noteq> []" and "cutoffTs \<le> timestamp_ms (last arr)"
  shows "(if findIndex (\<lambda>d. timestamp_ms d \<ge> cutoffTs) arr > 0
          then slice arr (findIndex (\<lambda>d. timestamp_ms d \<ge> cutoffTs) arr) else arr)
         = dropWhile (\<lambda>d. timestamp_ms d < cutoffTs) arr"
proof -
  define k where "k = findIndex (\<lambda>d. timestamp_ms d \<ge> cutoffTs) arr"
  have ex: "\<exists>d\<in>set arr. cutoffTs \<le> timestamp_ms d"
    using assms last_in_set by blast
  have neg: "(\<lambda>d. \<not> cutoffTs \<le> timestamp_ms d) = (\<lambda>d. timestamp_ms d < cutoffTs)"
    by (auto simp: not_le)
  have k: "k = int (length (takeWhile (\<lambda>d. timestamp_ms d < cutoffTs) arr))"
    unfolding k_def findIndex_takeWhile using ex by (simp add: neg)
  have "(if k > 0 then slice arr k else arr) = dropWhile (\<lambda>d. timestamp_ms d < cutoffTs) arr"
  proof (cases "k > 0")
    case True
    then show ?thesis
      by (simp add: slice_def k dropWhile_eq_drop)
  next
    case False
    then have "takeWhile (\<lambda>d. timestamp_ms d < cutoffTs) arr = []" by (simp add: k)
    then have "dropWhile (\<lambda>d. timestamp_ms d < cutoffTs) arr = arr"
      by (metis append_Nil takeWhile_dropWhile_id)
    with False show ?thesis by simp
  qed
  then show ?thesis by (simp only: k_def)
qed

lemma cutoff_le_last:
  "timestamp_ms (last arr) - BUFFER_DURATION_MS \<le> timestamp_ms (last arr)"
  by (simp add: BUFFER_DURATION_MS_def)

lemma trimAccBuffer_contents:
  "deref (trimAccBuffer s) (getAccData (trimAccBuffer s)) =
     (if deref s (getAccData s) = [] then []
      else dropWhile
             (\<lambda>d. timestamp_ms d <
                  timestamp_ms (last (deref s (getAccData s))) - BUFFER_DURATION_MS)
             (deref s (getAccData s)))"
proof (cases "heap s (accDataPoints s) = []")
  case True
  then show ?thesis by (simp add: trimAccBuffer_def deref_def getAccData_def)
next
  case False
  define arr where "arr = heap s (accDataPoints s)"
  define k where
    "k = findIndex (\<lambda>d. timestamp_ms d \<ge> timestamp_ms (last arr) - BUFFER_DURATION_MS) arr"
  have ne: "arr \<noteq> []" using False by (simp add: arr_def)
  have t: "trimAccBuffer s =
             (if k > 0
              then s\<lparr>heap := (heap s)(nextRef s := slice arr k),
                     accDataPoints := nextRef s, nextRef := Suc (nextRef s)\<rparr>
              else s)"
    using ne by (simp add: trimAccBuffer_def Let_def nth_last k_def flip: arr_def)
  have "heap (trimAccBuffer s) (accDataPoints (trimAccBuffer s))
          = (if k > 0 then slice arr k else arr)"
    by (simp add: t arr_def)
  also have "\<dots> = dropWhile
             (\<lambda>d. timestamp_ms d < timestamp_ms (last arr) - BUFFER_DURATION_MS) arr"
    unfolding k_def by (rule trim_dropWhile [OF ne cutoff_le_last])
  finally show ?thesis
    using ne by (simp add: deref_def getAccData_def arr_def)
qed

lemma trimPpgBuffer_contents:
  "deref (trimPpgBuffer s) (getPpgData (trimPpgBuffer s)) =
     (if deref s (getPpgData s) = [] then []
      else dropWhile
             (\<lambda>d. timestamp_ms d <
                  timestamp_ms (last (deref s (getPpgData s))) - BUFFER_DURATION_MS)
             (deref s (getPpgData s)))"
proof (cases "heap s (ppgDataPoints s) = []")
  case True
  then show ?thesis by (simp add: trimPpgBuffer_def deref_def getPpgData_def)
next
  case False
  define arr where "arr = heap s (ppgDataPoints s)"
  define k where
    "k = findIndex (\<lambda>d. timestamp_ms d \<ge> timestamp_ms (last arr) - BUFFER_DURATION_MS) arr"
  have ne: "arr \<noteq> []" using False by (simp add: arr_def)
  have t: "trimPpgBuffer s =
             (if k > 0
              then s\<lparr>heap := (heap s)(nextRef s := slice arr k),
                     ppgDataPoints := nextRef s, nextRef := Suc (nextRef s)\<rparr>
              else s)"
    using ne by (simp add: trimPpgBuffer_def Let_def nth_last k_def flip: arr_def)
  have "heap (trimPpgBuffer s) (ppgDataPoints (trimPpgBuffer s))
          = (if k > 0 then slice arr k else arr)"
    by (simp add: t arr_def)
  also have "\<dots> = dropWhile
             (\<lambda>d. timestamp_ms d < timestamp_ms (last arr) - BUFFER_DURATION_MS) arr"
    unfolding k_def by (rule trim_dropWhile [OF ne cutoff_le_last])
  finally show ?thesis
    using ne by (simp add: deref_def getPpgData_def arr_def)
qed

lemma sorted_dropWhile_filter:
  fixes f :: "'a \<Rightarrow> rat"
  assumes "sorted (map f xs)"
  shows "dropWhile (\<lambda>x. f x < c) xs = filter (\<lambda>x. c \<le> f x) xs"
  using assms
proof (induction xs)
  case Nil
  then show ?case by simp
next
  case (Cons x xs)
  show ?case
  proof (cases "f x < c")
    case True
    with Cons show ?thesis by simp
  next
    case False
    then have "\<forall>y\<in>set xs. c \<le> f y" using Cons.prems by fastforce
    then have "filter (\<lambda>x. c \<le> f x) xs = xs" by (simp add: filter_id_conv)
    with False show ?thesis by simp
  qed
qed

lemma sorted_le_last:
  fixes f :: "'a \<Rightarrow> rat"
  assumes "sorted (map f xs)" "x \<in> set xs"
  shows "f x \<le> f (last xs)"
  using assms
proof (induction xs)
  case Nil
  then show ?case by simp
next
  case (Cons y ys)
  then show ?case by (cases "ys = []") auto
qed

text \<open>The window of a sorted array after the cut.\<close>

lemma window_span:
  fixes arr :: "SensorDataPoint list"
  assumes "sorted (map timestamp_ms arr)"
    and "x \<in> set (dropWhile (\<lambda>d. timestamp_ms d < timestamp_ms (last arr) - w) arr)"
    and "y \<in> set (dropWhile (\<lambda>d. timestamp_ms d < timestamp_ms (last arr) - w) arr)"
  shows "\<bar>timestamp_ms x - timestamp_ms y\<bar> \<le> w"
proof -
  have in_window: "timestamp_ms (last arr) - w \<le> timestamp_ms z \<and>
                   timestamp_ms z \<le> timestamp_ms (last arr)"
    if "z \<in> set (dropWhile (\<lambda>d. timestamp_ms d < timestamp_ms (last arr) - w) arr)" for z
  proof -
    from that have "z \<in> set (filter (\<lambda>d. timestamp_ms (last arr) - w \<le> timestamp_ms d) arr)"
      by (simp only: sorted_dropWhile_filter [OF assms(1)])
    then have "z \<in> set arr" "timestamp_ms (last arr) - w \<le> timestamp_ms z" by simp_all
    then show ?thesis using sorted_le_last [OF assms(1)] by simp
  qed
  from in_window [OF assms(2)] in_window [OF assms(3)] show ?thesis by linarith
qed

lemma window_after_trim:
  fixes old new :: "SensorDataPoint list"
  assumes s: "sorted (map timestamp_ms old)"
    and new: "new = (if old = [] then []
                     else dropWhile (\<lambda>d. timestamp_ms d <
                            timestamp_ms (last old) - BUFFER_DURATION_MS) old)"
  shows "(\<forall>x\<in>set new. \<forall>y\<in>set new. \<bar>timestamp_ms x - timestamp_ms y\<bar> \<le> 60000) \<and>
         (old = [] \<longrightarrow> new = []) \<and>
         (old \<noteq> [] \<longrightarrow>
            new = dropWhile (\<lambda>d. timestamp_ms d < timestamp_ms (last old) - 60000) old \<and>
            new = filter (\<lambda>d. timestamp_ms (last old) - 60000 \<le> timestamp_ms d) old)"
proof (cases "old = []")
  case True
  then show ?thesis using new by simp
next
  case False
  have w: "BUFFER_DURATION_MS = 60000" by (simp add: BUFFER_DURATION_MS_def)
  have d: "new = dropWhile (\<lambda>d. timestamp_ms d < timestamp_ms (last old) - 60000) old"
    using False new by (simp add: w)
  have f: "new = filter (\<lambda>d. timestamp_ms (last old) - 60000 \<le> timestamp_ms d) old"
    unfolding d by (rule sorted_dropWhile_filter [OF s])
  have "\<bar>timestamp_ms x - timestamp_ms y\<bar> \<le> 60000" if "x \<in> set new" "y \<in> set new" for x y
    using window_span [OF s, of x 60000 y] that unfolding d by simp
  then show ?thesis using False d f by blast
qed

text \<open>
  Claim C3. If the timestamps of a buffer are in non-decreasing order, then after
  \<open>trimAccBuffer\<close> (\<open>trimPpgBuffer\<close>) any two entries of that buffer are at most 60000 ms
  apart, and what is left is the buffer from the first entry whose timestamp is at least
  the latest timestamp minus 60000: exactly the entries below that cutoff are gone.
\<close>

theorem trim_keeps_window:
  "(sorted (map timestamp_ms (deref s (getAccData s))) \<longrightarrow>
      (\<forall>x\<in>set (deref (trimAccBuffer s) (getAccData (trimAccBuffer s))).
       \<forall>y\<in>set (deref (trimAccBuffer s) (getAccData (trimAccBuffer s))).
          \<bar>timestamp_ms x - timestamp_ms y\<bar> \<le> 60000) \<and>
      (deref s (getAccData s) = [] \<longrightarrow>
         deref (trimAccBuffer s) (getAccData (trimAccBuffer s)) = []) \<and>
      (deref s (getAccData s) \<noteq> [] \<longrightarrow>
         deref (trimAccBuffer s) (getAccData (trimAccBuffer s)) =
           dropWhile (\<lambda>d. timestamp_ms d <
                          timestamp_ms (last (deref s (getAccData s))) - 60000)
             (deref s (getAccData s)) \<and>
         deref (trimAccBuffer s) (getAccData (trimAccBuffer s)) =
           filter (\<lambda>d. timestamp_ms (last (deref s (getAccData s))) - 60000 \<le> timestamp_ms d)
             (deref s (getAccData s))))
   \<and>
   (sorted (map timestamp_ms (deref s (getPpgData s))) \<longrightarrow>
      (\<forall>x\<in>set (deref (trimPpgBuffer s) (getPpgData (trimPpgBuffer s))).
       \<forall>y\<in>set (deref (trimPpgBuffer s) (getPpgData (trimPpgBuffer s))).
          \<bar>timestamp_ms x - timestamp_ms y\<bar> \<le> 60000) \<and>
      (deref s (getPpgData s) = [] \<longrightarrow>
         deref (trimPpgBuffer s) (getPpgData (trimPpgBuffer s)) = []) \<and>
      (deref s (getPpgData s) \<noteq> [] \<longrightarrow>
         deref (trimPpgBuffer s) (getPpgData (trimPpgBuffer s)) =
           dropWhile (\<lambda>d. timestamp_ms d <
                          timestamp_ms (last (deref s (getPpgData s))) - 60000)
             (deref s (getPpgData s)) \<and>
         deref (trimPpgBuffer s) (getPpgData (trimPpgBuffer s)) =
           filter (\<lambda>d. timestamp_ms (last (deref s (getPpgData s))) - 60000 \<le> timestamp_ms d)
             (deref s (getPpgData s))))"
proof (rule conjI; rule impI)
  assume "sorted (map timestamp_ms (deref s (getAccData s)))"
  then show "(\<forall>x\<in>set (deref (trimAccBuffer s) (getAccData (trimAccBuffer s))).
       \<forall>y\<in>set (deref (trimAccBuffer s) (getAccData (trimAccBuffer s))).
          \<bar>timestamp_ms x - timestamp_ms y\<bar> \<le> 60000) \<and>
      (deref s (getAccData s) = [] \<longrightarrow>
         deref (trimAccBuffer s) (getAccData (trimAccBuffer s)) = []) \<and>
      (deref s (getAccData s) \<noteq> [] \<longrightarrow>
         deref (trimAccBuffer s) (getAccData (trimAccBuffer s)) =
           dropWhile (\<lambda>d. timestamp_ms d <
                          timestamp_ms (last (deref s (getAccData s))) - 60000)
             (deref s (getAccData s)) \<and>
         deref (trimAccBuffer s) (getAccData (trimAccBuffer s)) =
           filter (\<lambda>d. timestamp_ms (last (deref s (getAccData s))) - 60000 \<le> timestamp_ms d)
             (deref s (getAccData s)))"
    by (rule window_after_trim [OF _ trimAccBuffer_contents])
next
  assume "sorted (map timestamp_ms (deref s (getPpgData s)))"
  then show "(\<forall>x\<in>set (deref (trimPpgBuffer s) (getPpgData (trimPpgBuffer s))).
       \<forall>y\<in>set (deref (trimPpgBuffer s) (getPpgData (trimPpgBuffer s))).
          \<bar>timestamp_ms x - timestamp_ms y\<bar> \<le> 60000) \<and>
      (deref s (getPpgData s) = [] \<longrightarrow>
         deref (trimPpgBuffer s) (getPpgData (trimPpgBuffer s)) = []) \<and>
      (deref s (getPpgData s) \<noteq> [] \<longrightarrow>
         deref (trimPpgBuffer s) (getPpgData (trimPpgBuffer s)) =
           dropWhile (\<lambda>d. timestamp_ms d <
                          timestamp_ms (last (deref s (getPpgData s))) - 60000)
             (deref s (getPpgData s)) \<and>
         deref (trimPpgBuffer s) (getPpgData (trimPpgBuffer s)) =
           filter (\<lambda>d. timestamp_ms (last (deref s (getPpgData s))) - 60000 \<le> timestamp_ms d)
             (deref s (getPpgData s)))"
    by (rule window_after_trim [OF _ trimPpgBuffer_contents])
qed

theorem trim_keeps_window_witness:
  "(let s = newCollector\<lparr>heap := (\<lambda>_. [])
              (0 := [\<lparr>timestamp_ms = 1000, sample_value = 5, sample_type = 1\<rparr>,
                     \<lparr>timestamp_ms = 1016, sample_value = 6, sample_type = 1\<rparr>,
                     \<lparr>timestamp_ms = 61016, sample_value = 7, sample_type = 1\<rparr>,
                     \<lparr>timestamp_ms = 61032, sample_value = 8, sample_type = 1\<rparr>],
               1 := [\<lparr>timestamp_ms = 5 / 2, sample_value = 1, sample_type = 2\<rparr>,
                     \<lparr>timestamp_ms = 60000, sample_value = 2, sample_type = 2\<rparr>,
                     \<lparr>timestamp_ms = 60005, sample_value = 3, sample_type = 2\<rparr>])\<rparr>
    in sorted (map timestamp_ms (deref s (getAccData s))) \<and>
       sorted (map timestamp_ms (deref s (getPpgData s))) \<and>
       map timestamp_ms (deref (trimAccBuffer s) (getAccData (trimAccBuffer s)))
         = [61016, 61032] \<and>
       map timestamp_ms (deref (trimPpgBuffer s) (getPpgData (trimPpgBuffer s)))
         = [60000, 60005])"
proof -
  define s where "s = newCollector\<lparr>heap := (\<lambda>_. [])
              (0 := [\<lparr>timestamp_ms = 1000, sample_value = 5, sample_type = 1\<rparr>,
                     \<lparr>timestamp_ms = 1016, sample_value = 6, sample_type = 1\<rparr>,
                     \<lparr>timestamp_ms = 61016, sample_value = 7, sample_type = 1\<rparr>,
                     \<lparr>timestamp_ms = 61032, sample_value = 8, sample_type = 1\<rparr>],
               1 := [\<lparr>timestamp_ms = 5 / 2, sample_value = 1, sample_type = 2\<rparr>,
                     \<lparr>timestamp_ms = 60000, sample_value = 2, sample_type = 2\<rparr>,
                     \<lparr>timestamp_ms = 60005, sample_value = 3, sample_type = 2\<rparr>])\<rparr>"
  have a: "deref s (getAccData s) =
             [\<lparr>timestamp_ms = 1000, sample_value = 5, sample_type = 1\<rparr>,
              \<lparr>timestamp_ms = 1016, sample_value = 6, sample_type = 1\<rparr>,
              \<lparr>timestamp_ms = 61016, sample_value = 7, sample_type = 1\<rparr>,
              \<lparr>timestamp_ms = 61032, sample_value = 8, sample_type = 1\<rparr>]"
    by (simp add: s_def newCollector_def deref_def getAccData_def)
  have p: "deref s (getPpgData s) =
             [\<lparr>timestamp_ms = 5 / 2, sample_value = 1, sample_type = 2\<rparr>,
              \<lparr>timestamp_ms = 60000, sample_value = 2, sample_type = 2\<rparr>,
              \<lparr>timestamp_ms = 60005, sample_value = 3, sample_type = 2\<rparr>]"
    by (simp add: s_def newCollector_def deref_def getPpgData_def)
  have sa: "sorted (map timestamp_ms (deref s (getAccData s)))" by (simp add: a)
  have sp: "sorted (map timestamp_ms (deref s (getPpgData s)))" by (simp add: p)
  have ne: "deref s (getAccData s) \<noteq> []" "deref s (getPpgData s) \<noteq> []"
    by (simp_all add: a p)
  from trim_keeps_window [of s] sa ne
  have "deref (trimAccBuffer s) (getAccData (trimAccBuffer s)) =
           dropWhile (\<lambda>d. timestamp_ms d <
                          timestamp_ms (last (deref s (getAccData s))) - 60000)
             (deref s (getAccData s))"
    by blast
  then have ra: "map timestamp_ms (deref (trimAccBuffer s) (getAccData (trimAccBuffer s)))
         = [61016, 61032]"
    by (simp add: a)
  from trim_keeps_window [of s] sp ne
  have "deref (trimPpgBuffer s) (getPpgData (trimPpgBuffer s)) =
           dropWhile (\<lambda>d. timestamp_ms d <
                          timestamp_ms (last (deref s (getPpgData s))) - 60000)
             (deref s (getPpgData s))"
    by blast
  then have rp: "map timestamp_ms (deref (trimPpgBuffer s) (getPpgData (trimPpgBuffer s)))
         = [60000, 60005]"
    by (simp add: p)
  from sa sp ra rp show ?thesis
    unfolding s_def Let_def by blast
qed

section \<open>Frame lemmas\<close>

lemma trimAccBuffer_frame:
  "genesisTS (trimAccBuffer s) = genesisTS s"
  "csvRows (trimAccBuffer s) = csvRows s"
  "ppgDataPoints (trimAccBuffer s) = ppgDataPoints s"
  "connected (trimAccBuffer s) = connected s"
  "collectingType (trimAccBuffer s) = collectingType s"
  by (simp_all add: trimAccBuffer_def Let_def)

lemma trimPpgBuffer_frame:
  "genesisTS (trimPpgBuffer s) = genesisTS s"
  "csvRows (trimPpgBuffer s) = csvRows s"
  "accDataPoints (trimPpgBuffer s) = accDataPoints s"
  "connected (trimPpgBuffer s) = connected s"
  "collectingType (trimPpgBuffer s) = collectingType s"
  by (simp_all add: trimPpgBuffer_def Let_def)

lemma trimAccBuffer_heap: "r < nextRef s \<Longrightarrow> heap (trimAccBuffer s) r = heap s r"
  by (simp add: trimAccBuffer_def Let_def)

lemma trimPpgBuffer_heap: "r < nextRef s \<Longrightarrow> heap (trimPpgBuffer s) r = heap s r"
  by (simp add: trimPpgBuffer_def Let_def)

lemma trimAccBuffer_nextRef: "nextRef s \<le> nextRef (trimAccBuffer s)"
  by (simp add: trimAccBuffer_def Let_def)

lemma trimPpgBuffer_nextRef: "nextRef s \<le> nextRef (trimPpgBuffer s)"
  by (simp add: trimPpgBuffer_def Let_def)

lemma trimAccBuffer_ref:
  "accDataPoints s < nextRef s \<Longrightarrow>
     accDataPoints (trimAccBuffer s) < nextRef (trimAccBuffer s) \<and>
     (accDataPoints (trimAccBuffer s) = accDataPoints s \<or>
      accDataPoints (trimAccBuffer s) = nextRef s)"
  by (simp add: trimAccBuffer_def Let_def)

lemma trimPpgBuffer_ref:
  "ppgDataPoints s < nextRef s \<Longrightarrow>
     ppgDataPoints (trimPpgBuffer s) < nextRef (trimPpgBuffer s) \<and>
     (ppgDataPoints (trimPpgBuffer s) = ppgDataPoints s \<or>
      ppgDataPoints (trimPpgBuffer s) = nextRef s)"
  by (simp add: trimPpgBuffer_def Let_def)

text \<open>A trim of an array inside its window does nothing.\<close>

lemma findIndex_hd: "arr \<noteq> [] \<Longrightarrow> P (hd arr) \<Longrightarrow> findIndex P arr = 0"
  by (cases arr) (simp_all add: findIndex_def)

lemma trimAccBuffer_noop:
  assumes "withinWindow (heap s (accDataPoints s))"
  shows "trimAccBuffer s = s"
proof (cases "heap s (accDataPoints s) = []")
  case True
  then show ?thesis by (simp add: trimAccBuffer_def)
next
  case False
  then have "findIndex (\<lambda>d. timestamp_ms (last (heap s (accDataPoints s))) - BUFFER_DURATION_MS
                            \<le> timestamp_ms d) (heap s (accDataPoints s)) = 0"
    using assms by (intro findIndex_hd) (simp_all add: withinWindow_def)
  then show ?thesis
    using False by (simp add: trimAccBuffer_def Let_def nth_last)
qed

lemma trimPpgBuffer_noop:
  assumes "withinWindow (heap s (ppgDataPoints s))"
  shows "trimPpgBuffer s = s"
proof (cases "heap s (ppgDataPoints s) = []")
  case True
  then show ?thesis by (simp add: trimPpgBuffer_def)
next
  case False
  then have "findIndex (\<lambda>d. timestamp_ms (last (heap s (ppgDataPoints s))) - BUFFER_DURATION_MS
                            \<le> timestamp_ms d) (heap s (ppgDataPoints s)) = 0"
    using assms by (intro findIndex_hd) (simp_all add: withinWindow_def)
  then show ?thesis
    using False by (simp add: trimPpgBuffer_def Let_def nth_last)
qed

text \<open>What a trim leaves is inside its window.\<close>

lemma withinWindow_dropWhile:
  fixes arr :: "SensorDataPoint list"
  shows "withinWindow (if arr = [] then []
                 else dropWhile (\<lambda>d. timestamp_ms d <
                        timestamp_ms (last arr) - BUFFER_DURATION_MS) arr)"
proof (cases "arr = []")
  case True
  then show ?thesis by (simp add: withinWindow_def)
next
  case False
  define P where
    "P = (\<lambda>d :: SensorDataPoint. timestamp_ms d < timestamp_ms (last arr) - BUFFER_DURATION_MS)"
  have nl: "\<not> P (last arr)" by (simp add: P_def BUFFER_DURATION_MS_def)
  have ne: "dropWhile P arr \<noteq> []"
    using False nl last_in_set [OF False] by (auto simp: dropWhile_eq_Nil_conv)
  have l: "last (dropWhile P arr) = last arr"
    using ne by (metis last_appendR takeWhile_dropWhile_id)
  have "\<not> P (hd (dropWhile P arr))" using ne by (rule hd_dropWhile)
  then show ?thesis
    using False ne unfolding withinWindow_def l P_def [symmetric]
    by (simp add: l) (simp add: P_def)
qed

lemma trimAccBuffer_within:
  "withinWindow (heap (trimAccBuffer s) (accDataPoints (trimAccBuffer s)))"
proof -
  have "heap (trimAccBuffer s) (accDataPoints (trimAccBuffer s)) =
          (if heap s (accDataPoints s) = [] then []
           else dropWhile (\<lambda>d. timestamp_ms d <
                  timestamp_ms (last (heap s (accDataPoints s))) - BUFFER_DURATION_MS)
                  (heap s (accDataPoints s)))"
    using trimAccBuffer_contents [of s] unfolding deref_def getAccData_def .
  then show ?thesis by (simp only: withinWindow_dropWhile)
qed

lemma trimPpgBuffer_within:
  "withinWindow (heap (trimPpgBuffer s) (ppgDataPoints (trimPpgBuffer s)))"
proof -
  have "heap (trimPpgBuffer s) (ppgDataPoints (trimPpgBuffer s)) =
          (if heap s (ppgDataPoints s) = [] then []
           else dropWhile (\<lambda>d. timestamp_ms d <
                  timestamp_ms (last (heap s (ppgDataPoints s))) - BUFFER_DURATION_MS)
                  (heap s (ppgDataPoints s)))"
    using trimPpgBuffer_contents [of s] unfolding deref_def getPpgData_def .
  then show ?thesis by (simp only: withinWindow_dropWhile)
qed

section \<open>The handler on a valid packet\<close>

lemma genesisCheck_frame:
  "accDataPoints (genesisCheck now t s) = accDataPoints s"
  "ppgDataPoints (genesisCheck now t s) = ppgDataPoints s"
  "heap (genesisCheck now t s) = heap s"
  "nextRef (genesisCheck now t s) = nextRef s"
  "connected (genesisCheck now t s) = connected s"
  by (simp_all add: genesisCheck_def)

lemma genesisCheck_genesisTS:
  "genesisTS (genesisCheck now t s) =
     (if falsy (genesisTS s t) then (genesisTS s)(t := Some now) else genesisTS s)"
  by (simp add: genesisCheck_def)

lemma genesisCheck_csvRows:
  "csvRows (genesisCheck now t s) =
     csvRows s @
     (if falsy (genesisTS s t)
      then [if t = PACKET_TYPE_ACC then [Str ''timestamp_ms'', Str ''magnitude_ug'']
            else [Str ''timestamp_ms'', Str ''green'']]
      else [])"
  by (simp add: genesisCheck_def)

text \<open>After the check the genesis of the packet's type is set.\<close>

lemma genesisCheck_set:
  "genesisTS (genesisCheck now t s) t = Some (orZero (genesisTS (genesisCheck now t s) t))"
  by (cases "genesisTS s t") (simp_all add: genesisCheck_def falsy_def orZero_def)

lemma genesisCheck_other:
  "u \<noteq> t \<Longrightarrow> genesisTS (genesisCheck now t s) u = genesisTS s u"
  by (simp add: genesisCheck_def)

lemma valid_length: "0 < sampleCount dv \<Longrightarrow> 6 \<le> byteLength dv"
  unfolding sampleCount_div by linarith

lemma header_reads:
  assumes "3 \<le> byteLength dv"
  shows "getUint8 dv 0 = Inr (unat (dv ! 0))"
    and "getUint16 dv 1 True = Inr (unat (dv ! 1) + 256 * unat (dv ! 2))"
  using assms by (simp_all add: getUint8_def getUint16_def numeral_2_eq_2)

lemma handleNotification_valid:
  assumes "0 < sampleCount dv" "getUint8 dv 0 = Inr t" "getUint16 dv 1 True = Inr c"
  shows "handleNotification now dv s =
           (case sampleLoop dv t c (sampleCount dv) 0 (genesisCheck now t s) of
              Inl e \<Rightarrow> Inl e
            | Inr s2 \<Rightarrow> Inr (trimPpgBuffer (trimAccBuffer s2)))"
  using assms valid_length [OF assms(1)]
  by (simp add: handleNotification_def Let_def)

text \<open>What the loop leaves alone, whatever the packet type.\<close>

lemma sampleLoop_frame:
  assumes "n \<le> sampleCount dv"
  shows "\<exists>s2. sampleLoop dv t c n i s = Inr s2 \<and>
           accDataPoints s2 = accDataPoints s \<and>
           ppgDataPoints s2 = ppgDataPoints s \<and>
           nextRef s2 = nextRef s \<and>
           genesisTS s2 = genesisTS s \<and>
           connected s2 = connected s \<and>
           collectingType s2 = collectingType s \<and>
           take (length (csvRows s)) (csvRows s2) = csvRows s \<and>
           (t \<noteq> PACKET_TYPE_ACC \<longrightarrow> t \<noteq> PACKET_TYPE_PPG \<longrightarrow> s2 = s) \<and>
           (\<forall>r. (r \<noteq> accDataPoints s \<or> t \<noteq> PACKET_TYPE_ACC) \<longrightarrow>
                (r \<noteq> ppgDataPoints s \<or> t \<noteq> PACKET_TYPE_PPG) \<longrightarrow> heap s2 r = heap s r)"
proof -
  consider "t = PACKET_TYPE_ACC" | "t = PACKET_TYPE_PPG"
    | "t \<noteq> PACKET_TYPE_ACC" "t \<noteq> PACKET_TYPE_PPG" by blast
  then show ?thesis
  proof cases
    case 1
    show ?thesis
      unfolding 1 sampleLoop_acc [OF assms] by (simp add: types_distinct)
  next
    case 2
    show ?thesis
      unfolding 2 sampleLoop_ppg [OF assms] by (simp add: types_distinct [symmetric])
  next
    case 3
    then show ?thesis
      by (simp add: sampleLoop_other [OF assms])
  qed
qed

text \<open>The handler never throws.\<close>

lemma handleNotification_total: "\<exists>s'. handleNotification now dv s = Inr s'"
proof (cases "0 < sampleCount dv")
  case True
  then have len: "3 \<le> byteLength dv" using valid_length [OF True] by simp
  obtain s2 where
    "sampleLoop dv (unat (dv ! 0)) (unat (dv ! 1) + 256 * unat (dv ! 2)) (sampleCount dv) 0
       (genesisCheck now (unat (dv ! 0)) s) = Inr s2"
    using sampleLoop_frame [OF order_refl] by blast
  then show ?thesis
    by (simp add: handleNotification_valid [OF True header_reads [OF len]])
next
  case False
  then have "handleNotification now dv s = Inr s"
    by (intro handleNotification_short) simp
  then show ?thesis by blast
qed

lemma handleNotifications_total: "\<exists>s'. handleNotifications ns s = Inr s'"
proof (induction ns arbitrary: s)
  case Nil
  show ?case by simp
next
  case (Cons n ns)
  obtain now dv where n: "n = (now, dv)" by (cases n)
  obtain s1 where "handleNotification now dv s = Inr s1"
    using handleNotification_total by blast
  then show ?case using Cons [of s1] by (simp add: n)
qed

text \<open>Every state of a run is consistent.\<close>

lemma handleNotification_consistent:
  assumes "consistent s" "handleNotification now dv s = Inr s'"
  shows "consistent s'"
proof (cases "0 < sampleCount dv")
  case False
  then have "handleNotification now dv s = Inr s"
    by (intro handleNotification_short) simp
  with assms show ?thesis by simp
next
  case True
  then have len: "3 \<le> byteLength dv" using valid_length [OF True] by simp
  define s1 where "s1 = genesisCheck now (unat (dv ! 0)) s"
  obtain s2 where s2: 
    "sampleLoop dv (unat (dv ! 0)) (unat (dv ! 1) + 256 * unat (dv ! 2)) (sampleCount dv) 0 s1
       = Inr s2"
    "accDataPoints s2 = accDataPoints s1" "ppgDataPoints s2 = ppgDataPoints s1"
    "nextRef s2 = nextRef s1"
    using sampleLoop_frame [OF order_refl] by blast
  have s': "s' = trimPpgBuffer (trimAccBuffer s2)"
    using assms(2) s2(1)
    by (simp add: handleNotification_valid [OF True header_reads [OF len]] s1_def)
  define s3 where "s3 = trimAccBuffer s2"
  have r2: "accDataPoints s2 \<noteq> ppgDataPoints s2" "accDataPoints s2 < nextRef s2"
    "ppgDataPoints s2 < nextRef s2"
    using assms(1) by (simp_all add: s2 s1_def genesisCheck_frame consistent_def)
  have a3: "accDataPoints s3 < nextRef s3"
    "accDataPoints s3 = accDataPoints s2 \<or> accDataPoints s3 = nextRef s2"
    using trimAccBuffer_ref [OF r2(2)] by (simp_all add: s3_def)
  have p3: "ppgDataPoints s3 = ppgDataPoints s2"
    by (simp add: s3_def trimAccBuffer_frame)
  have n3: "nextRef s2 \<le> nextRef s3" by (simp add: s3_def trimAccBuffer_nextRef)
  have w3: "withinWindow (heap s3 (accDataPoints s3))"
    by (simp add: s3_def trimAccBuffer_within)
  have d3: "accDataPoints s3 \<noteq> ppgDataPoints s3"
    using a3(2) r2 p3 by auto
  have pl3: "ppgDataPoints s3 < nextRef s3" using p3 r2(3) n3 by simp
  have s'3: "s' = trimPpgBuffer s3" by (simp add: s' s3_def)
  have a': "accDataPoints s' = accDataPoints s3" by (simp add: s'3 trimPpgBuffer_frame)
  have p': "ppgDataPoints s' < nextRef s'"
    "ppgDataPoints s' = ppgDataPoints s3 \<or> ppgDataPoints s' = nextRef s3"
    using trimPpgBuffer_ref [OF pl3] by (simp_all add: s'3)
  have n': "nextRef s3 \<le> nextRef s'" by (simp add: s'3 trimPpgBuffer_nextRef)
  have "heap s' (accDataPoints s') = heap s3 (accDataPoints s3)"
    using trimPpgBuffer_heap [OF a3(1)] by (simp add: s'3 trimPpgBuffer_frame)
  then have wa: "withinWindow (heap s' (accDataPoints s'))" using w3 by simp
  have wp: "withinWindow (heap s' (ppgDataPoints s'))"
    by (simp add: s'3 trimPpgBuffer_within)
  have "accDataPoints s' \<noteq> ppgDataPoints s'"
    using p'(2) a' d3 a3(1) by auto
  moreover have "accDataPoints s' < nextRef s'" using a' a3(1) n' by simp
  ultimately show ?thesis
    using p'(1) wa wp by (simp add: consistent_def)
qed

lemma reachable_consistent: "reachable s \<Longrightarrow> consistent s"
proof (induction rule: reachable.induct)
  case constructed
  show ?case by (simp add: consistent_def newCollector_def withinWindow_def)
next
  case (notified s now dv s')
  then show ?case using handleNotification_consistent by blast
next
  case (stopped s)
  then show ?case by (simp add: consistent_def stop_def)
next
  case (link s b)
  then show ?case by (simp add: consistent_def)
qed

section \<open>Timestamps\<close>

lemma handleNotification_genesisTS:
  assumes "0 < sampleCount dv" "getUint8 dv 0 = Inr t" "handleNotification now dv s = Inr s'"
  shows "genesisTS s' = genesisTS (genesisCheck now t s)"
proof -
  have len: "3 \<le> byteLength dv" using valid_length [OF assms(1)] by simp
  obtain s2 where s2:
    "sampleLoop dv t (unat (dv ! 1) + 256 * unat (dv ! 2)) (sampleCount dv) 0
       (genesisCheck now t s) = Inr s2"
    "genesisTS s2 = genesisTS (genesisCheck now t s)"
    using sampleLoop_frame [OF order_refl] by blast
  have "s' = trimPpgBuffer (trimAccBuffer s2)"
    using assms(3) s2(1)
    by (simp add: handleNotification_valid [OF assms(1,2) header_reads(2) [OF len]])
  then show ?thesis by (simp add: trimPpgBuffer_frame trimAccBuffer_frame s2(2))
qed

lemma old_array_after_trims:
  assumes "r < nextRef s"
  shows "heap (trimPpgBuffer (trimAccBuffer s)) r = heap s r"
proof -
  have "r < nextRef (trimAccBuffer s)"
    using assms trimAccBuffer_nextRef [of s] by simp
  then show ?thesis
    using assms by (simp add: trimPpgBuffer_heap trimAccBuffer_heap)
qed

lemma handleNotification_acc:
  assumes "0 < sampleCount dv" "getUint8 dv 0 = Inr PACKET_TYPE_ACC"
    and "getUint16 dv 1 True = Inr c"
  shows "\<exists>s' g. handleNotification now dv s = Inr s' \<and>
           genesisTS s' = genesisTS (genesisCheck now PACKET_TYPE_ACC s) \<and>
           genesisTS s' PACKET_TYPE_ACC = Some g \<and>
           csvRows s' = csvRows (genesisCheck now PACKET_TYPE_ACC s) @
             map (\<lambda>i. [Num (rat_of_int g + rat_of_nat (c * 5 + i) * 16),
                       Num (rat_of_int (projr (readSample dv (3 + i * 3))))])
               [0..<nat (sampleCount dv)] \<and>
           (accDataPoints s < nextRef s \<longrightarrow>
              deref s' (getAccData s) = deref s (getAccData s) @
                map (\<lambda>i. \<lparr>timestamp_ms = rat_of_int g + rat_of_nat (c * 5 + i) * 16,
                          sample_value = projr (readSample dv (3 + i * 3)),
                          sample_type = PACKET_TYPE_ACC\<rparr>)
                  [0..<nat (sampleCount dv)])"
proof -
  define s1 where "s1 = genesisCheck now PACKET_TYPE_ACC s"
  define g where "g = orZero (genesisTS s1 PACKET_TYPE_ACC)"
  define s2 where "s2 = s1\<lparr>csvRows := csvRows s1 @
             map (\<lambda>j. [Num (rat_of_int g + rat_of_nat (c * 5 + j) * ACC_SAMPLE_PERIOD_MS),
                       Num (rat_of_int (projr (readSample dv (3 + j * 3))))])
               [0..<nat (sampleCount dv)],
           heap := (heap s1)(accDataPoints s1 := heap s1 (accDataPoints s1) @
             map (\<lambda>j. \<lparr>timestamp_ms = rat_of_int g +
                            rat_of_nat (c * 5 + j) * ACC_SAMPLE_PERIOD_MS,
                       sample_value = projr (readSample dv (3 + j * 3)),
                       sample_type = PACKET_TYPE_ACC\<rparr>) [0..<nat (sampleCount dv)])\<rparr>"
  define s' where "s' = trimPpgBuffer (trimAccBuffer s2)"
  have loop: "sampleLoop dv PACKET_TYPE_ACC c (sampleCount dv) 0 s1 = Inr s2"
    unfolding s2_def g_def by (rule sampleLoop_acc [OF order_refl])
  have h: "handleNotification now dv s = Inr s'"
    by (simp add: handleNotification_valid [OF assms] loop s'_def flip: s1_def)
  have gen: "genesisTS s' = genesisTS s1"
    by (simp add: s'_def s2_def trimPpgBuffer_frame trimAccBuffer_frame)
  have gset: "genesisTS s' PACKET_TYPE_ACC = Some g"
    unfolding gen g_def s1_def by (rule genesisCheck_set)
  have rows: "csvRows s' = csvRows s1 @
             map (\<lambda>i. [Num (rat_of_int g + rat_of_nat (c * 5 + i) * 16),
                       Num (rat_of_int (projr (readSample dv (3 + i * 3))))])
               [0..<nat (sampleCount dv)]"
    by (simp add: s'_def s2_def trimPpgBuffer_frame trimAccBuffer_frame
        ACC_SAMPLE_PERIOD_MS_def)
  have pts: "deref s' (getAccData s) = deref s (getAccData s) @
                map (\<lambda>i. \<lparr>timestamp_ms = rat_of_int g + rat_of_nat (c * 5 + i) * 16,
                          sample_value = projr (readSample dv (3 + i * 3)),
                          sample_type = PACKET_TYPE_ACC\<rparr>)
                  [0..<nat (sampleCount dv)]"
    if "accDataPoints s < nextRef s"
  proof -
    have "accDataPoints s < nextRef s2"
      using that by (simp add: s2_def s1_def genesisCheck_frame)
    then have "heap s' (accDataPoints s) = heap s2 (accDataPoints s)"
      unfolding s'_def by (rule old_array_after_trims)
    then show ?thesis
      by (simp add: deref_def getAccData_def s2_def s1_def genesisCheck_frame
          ACC_SAMPLE_PERIOD_MS_def)
  qed
  show ?thesis
    using h gen gset rows pts unfolding s1_def by blast
qed

lemma handleNotification_ppg:
  assumes "0 < sampleCount dv" "getUint8 dv 0 = Inr PACKET_TYPE_PPG"
    and "getUint16 dv 1 True = Inr c"
  shows "\<exists>s' g. handleNotification now dv s = Inr s' \<and>
           genesisTS s' = genesisTS (genesisCheck now PACKET_TYPE_PPG s) \<and>
           genesisTS s' PACKET_TYPE_PPG = Some g \<and>
           csvRows s' = csvRows (genesisCheck now PACKET_TYPE_PPG s) @
             map (\<lambda>i. [Num (rat_of_int g + rat_of_nat (c * 5 + i) * (5 / 2)),
                       Num (rat_of_int (projr (readSample dv (3 + i * 3))))])
               [0..<nat (sampleCount dv)] \<and>
           (ppgDataPoints s < nextRef s \<longrightarrow>
              deref s' (getPpgData s) = deref s (getPpgData s) @
                map (\<lambda>i. \<lparr>timestamp_ms = rat_of_int g + rat_of_nat (c * 5 + i) * (5 / 2),
                          sample_value = projr (readSample dv (3 + i * 3)),
                          sample_type = PACKET_TYPE_PPG\<rparr>)
                  [0..<nat (sampleCount dv)])"
proof -
  define s1 where "s1 = genesisCheck now PACKET_TYPE_PPG s"
  define g where "g = orZero (genesisTS s1 PACKET_TYPE_PPG)"
  define s2 where "s2 = s1\<lparr>csvRows := csvRows s1 @
             map (\<lambda>j. [Num (rat_of_int g + rat_of_nat (c * 5 + j) * PPG_SAMPLE_PERIOD_MS),
                       Num (rat_of_int (projr (readSample dv (3 + j * 3))))])
               [0..<nat (sampleCount dv)],
           heap := (heap s1)(ppgDataPoints s1 := heap s1 (ppgDataPoints s1) @
             map (\<lambda>j. \<lparr>timestamp_ms = rat_of_int g +
                            rat_of_nat (c * 5 + j) * PPG_SAMPLE_PERIOD_MS,
                       sample_value = projr (readSample dv (3 + j * 3)),
                       sample_type = PACKET_TYPE_PPG\<rparr>) [0..<nat (sampleCount dv)])\<rparr>"
  define s' where "s' = trimPpgBuffer (trimAccBuffer s2)"
  have loop: "sampleLoop dv PACKET_TYPE_PPG c (sampleCount dv) 0 s1 = Inr s2"
    unfolding s2_def g_def by (rule sampleLoop_ppg [OF order_refl])
  have h: "handleNotification now dv s = Inr s'"
    by (simp add: handleNotification_valid [OF assms] loop s'_def flip: s1_def)
  have gen: "genesisTS s' = genesisTS s1"
    by (simp add: s'_def s2_def trimPpgBuffer_frame trimAccBuffer_frame)
  have gset: "genesisTS s' PACKET_TYPE_PPG = Some g"
    unfolding gen g_def s1_def by (rule genesisCheck_set)
  have rows: "csvRows s' = csvRows s1 @
             map (\<lambda>i. [Num (rat_of_int g + rat_of_nat (c * 5 + i) * (5 / 2)),
                       Num (rat_of_int (projr (readSample dv (3 + i * 3))))])
               [0..<nat (sampleCount dv)]"
    by (simp add: s'_def s2_def trimPpgBuffer_frame trimAccBuffer_frame
        PPG_SAMPLE_PERIOD_MS_def)
  have pts: "deref s' (getPpgData s) = deref s (getPpgData s) @
                map (\<lambda>i. \<lparr>timestamp_ms = rat_of_int g + rat_of_nat (c * 5 + i) * (5 / 2),
                          sample_value = projr (readSample dv (3 + i * 3)),
                          sample_type = PACKET_TYPE_PPG\<rparr>)
                  [0..<nat (sampleCount dv)]"
    if "ppgDataPoints s < nextRef s"
  proof -
    have "ppgDataPoints s < nextRef s2"
      using that by (simp add: s2_def s1_def genesisCheck_frame)
    then have "heap s' (ppgDataPoints s) = heap s2 (ppgDataPoints s)"
      unfolding s'_def by (rule old_array_after_trims)
    then show ?thesis
      by (simp add: deref_def getPpgData_def s2_def s1_def genesisCheck_frame
          PPG_SAMPLE_PERIOD_MS_def)
  qed
  show ?thesis
    using h gen gset rows pts unfolding s1_def by blast
qed

text \<open>
  Claim C1. For a valid packet (at least 3 bytes, at least one sample) with counter \<open>c\<close>, the
  handler returns, and with \<open>g\<close> the genesis of the packet's type after it, the rows it
  appends to the log (after the header row, if one is due) and the data points it pushes
  onto the buffer carry, for sample \<open>i\<close>, the timestamp \<open>g + (c * 5 + i) * 16\<close> for ACC and
  \<open>g + (c * 5 + i) * 2.5\<close> for PPG, in exact arithmetic. In particular, with the ACC genesis
  \<open>T\<close>, a packet with counter 0 and samples 10, 20, 30 and then one with counter 1 and samples
  40, 50, 60 are logged at \<open>T\<close>, \<open>T + 16\<close>, \<open>T + 32\<close>, \<open>T + 80\<close>, \<open>T + 96\<close>, \<open>T + 112\<close>.
\<close>

theorem timestamps_reconstructed:
  "(3 \<le> byteLength dv \<and> 1 \<le> sampleCount dv \<and> getUint16 dv 1 True = Inr c \<and>
    getUint8 dv 0 = Inr PACKET_TYPE_ACC \<longrightarrow>
      (\<exists>s' g. handleNotification now dv s = Inr s' \<and>
         genesisTS s' PACKET_TYPE_ACC = Some g \<and>
         csvRows s' = csvRows (genesisCheck now PACKET_TYPE_ACC s) @
           map (\<lambda>i. [Num (rat_of_int g + rat_of_nat (c * 5 + i) * 16),
                     Num (rat_of_int (projr (readSample dv (3 + i * 3))))])
             [0..<nat (sampleCount dv)] \<and>
         (reachable s \<longrightarrow>
            deref s' (getAccData s) = deref s (getAccData s) @
              map (\<lambda>i. \<lparr>timestamp_ms = rat_of_int g + rat_of_nat (c * 5 + i) * 16,
                        sample_value = projr (readSample dv (3 + i * 3)),
                        sample_type = PACKET_TYPE_ACC\<rparr>)
                [0..<nat (sampleCount dv)])))
   \<and>
   (3 \<le> byteLength dv \<and> 1 \<le> sampleCount dv \<and> getUint16 dv 1 True = Inr c \<and>
    getUint8 dv 0 = Inr PACKET_TYPE_PPG \<longrightarrow>
      (\<exists>s' g. handleNotification now dv s = Inr s' \<and>
         genesisTS s' PACKET_TYPE_PPG = Some g \<and>
         csvRows s' = csvRows (genesisCheck now PACKET_TYPE_PPG s) @
           map (\<lambda>i. [Num (rat_of_int g + rat_of_nat (c * 5 + i) * (5 / 2)),
                     Num (rat_of_int (projr (readSample dv (3 + i * 3))))])
             [0..<nat (sampleCount dv)] \<and>
         (reachable s \<longrightarrow>
            deref s' (getPpgData s) = deref s (getPpgData s) @
              map (\<lambda>i. \<lparr>timestamp_ms = rat_of_int g + rat_of_nat (c * 5 + i) * (5 / 2),
                        sample_value = projr (readSample dv (3 + i * 3)),
                        sample_type = PACKET_TYPE_PPG\<rparr>)
                [0..<nat (sampleCount dv)])))
   \<and>
   (handleNotification nowA [1, 0, 0, 10, 0, 0, 20, 0, 0, 30, 0, 0] s = Inr s1 \<and>
    handleNotification nowB [1, 1, 0, 40, 0, 0, 50, 0, 0, 60, 0, 0] s1 = Inr s2 \<and>
    genesisTS s1 PACKET_TYPE_ACC = Some T \<and> genesisTS s2 PACKET_TYPE_ACC = Some T \<longrightarrow>
      csvRows s1 = csvRows (genesisCheck nowA PACKET_TYPE_ACC s) @
        [[Num (rat_of_int T), Num 10],
         [Num (rat_of_int T + 16), Num 20],
         [Num (rat_of_int T + 32), Num 30]] \<and>
      csvRows s2 = csvRows (genesisCheck nowB PACKET_TYPE_ACC s1) @
        [[Num (rat_of_int T + 80), Num 40],
         [Num (rat_of_int T + 96), Num 50],
         [Num (rat_of_int T + 112), Num 60]])"
proof (intro conjI impI; (elim conjE)?)
  assume "1 \<le> sampleCount dv" "getUint16 dv 1 True = Inr c"
    "getUint8 dv 0 = Inr PACKET_TYPE_ACC"
  then show "\<exists>s' g. handleNotification now dv s = Inr s' \<and>
         genesisTS s' PACKET_TYPE_ACC = Some g \<and>
         csvRows s' = csvRows (genesisCheck now PACKET_TYPE_ACC s) @
           map (\<lambda>i. [Num (rat_of_int g + rat_of_nat (c * 5 + i) * 16),
                     Num (rat_of_int (projr (readSample dv (3 + i * 3))))])
             [0..<nat (sampleCount dv)] \<and>
         (reachable s \<longrightarrow>
            deref s' (getAccData s) = deref s (getAccData s) @
              map (\<lambda>i. \<lparr>timestamp_ms = rat_of_int g + rat_of_nat (c * 5 + i) * 16,
                        sample_value = projr (readSample dv (3 + i * 3)),
                        sample_type = PACKET_TYPE_ACC\<rparr>)
                [0..<nat (sampleCount dv)])"
    using handleNotification_acc [of dv c now s] reachable_consistent [of s]
    by (auto simp: consistent_def)
next
  assume "1 \<le> sampleCount dv" "getUint16 dv 1 True = Inr c"
    "getUint8 dv 0 = Inr PACKET_TYPE_PPG"
  then show "\<exists>s' g. handleNotification now dv s = Inr s' \<and>
         genesisTS s' PACKET_TYPE_PPG = Some g \<and>
         csvRows s' = csvRows (genesisCheck now PACKET_TYPE_PPG s) @
           map (\<lambda>i. [Num (rat_of_int g + rat_of_nat (c * 5 + i) * (5 / 2)),
                     Num (rat_of_int (projr (readSample dv (3 + i * 3))))])
             [0..<nat (sampleCount dv)] \<and>
         (reachable s \<longrightarrow>
            deref s' (getPpgData s) = deref s (getPpgData s) @
              map (\<lambda>i. \<lparr>timestamp_ms = rat_of_int g + rat_of_nat (c * 5 + i) * (5 / 2),
                        sample_value = projr (readSample dv (3 + i * 3)),
                        sample_type = PACKET_TYPE_PPG\<rparr>)
                [0..<nat (sampleCount dv)])"
    using handleNotification_ppg [of dv c now s] reachable_consistent [of s]
    by (auto simp: consistent_def)
next
  let ?A = "[1, 0, 0, 10, 0, 0, 20, 0, 0, 30, 0, 0] :: DataView"
  assume a: "handleNotification nowA ?A s = Inr s1" "genesisTS s1 PACKET_TYPE_ACC = Some T"
  have n: "sampleCount ?A = 3" by (simp add: sampleCount_def byteLength_def)
  have "0 < sampleCount ?A" "getUint8 ?A 0 = Inr PACKET_TYPE_ACC" "getUint16 ?A 1 True = Inr 0"
    by (simp_all add: n getUint8_def getUint16_def byteLength_def PACKET_TYPE_ACC_def)
  from handleNotification_acc [OF this, of nowA s] a
  have "csvRows s1 = csvRows (genesisCheck nowA PACKET_TYPE_ACC s) @
           map (\<lambda>i. [Num (rat_of_int T + rat_of_nat (0 * 5 + i) * 16),
                     Num (rat_of_int (projr (readSample ?A (3 + i * 3))))])
             [0..<nat (sampleCount ?A)]"
    by auto
  moreover have "[0..<nat (sampleCount ?A)] = [0, 1, 2]"
    by (simp add: n eval_nat_numeral upt_rec)
  moreover have "readSample ?A 3 = Inr 10" "readSample ?A 6 = Inr 20" "readSample ?A 9 = Inr 30"
    by (simp_all add: readSample_in_range byteLength_def)
  ultimately show "csvRows s1 = csvRows (genesisCheck nowA PACKET_TYPE_ACC s) @
        [[Num (rat_of_int T), Num 10],
         [Num (rat_of_int T + 16), Num 20],
         [Num (rat_of_int T + 32), Num 30]]"
    by simp
next
  let ?B = "[1, 1, 0, 40, 0, 0, 50, 0, 0, 60, 0, 0] :: DataView"
  assume a: "handleNotification nowB ?B s1 = Inr s2" "genesisTS s2 PACKET_TYPE_ACC = Some T"
  have n: "sampleCount ?B = 3" by (simp add: sampleCount_def byteLength_def)
  have "0 < sampleCount ?B" "getUint8 ?B 0 = Inr PACKET_TYPE_ACC" "getUint16 ?B 1 True = Inr 1"
    by (simp_all add: n getUint8_def getUint16_def byteLength_def PACKET_TYPE_ACC_def)
  from handleNotification_acc [OF this, of nowB s1] a
  have "csvRows s2 = csvRows (genesisCheck nowB PACKET_TYPE_ACC s1) @
           map (\<lambda>i. [Num (rat_of_int T + rat_of_nat (1 * 5 + i) * 16),
                     Num (rat_of_int (projr (readSample ?B (3 + i * 3))))])
             [0..<nat (sampleCount ?B)]"
    by auto
  moreover have "[0..<nat (sampleCount ?B)] = [0, 1, 2]"
    by (simp add: n eval_nat_numeral upt_rec)
  moreover have "readSample ?B 3 = Inr 40" "readSample ?B 6 = Inr 50" "readSample ?B 9 = Inr 60"
    by (simp_all add: readSample_in_range byteLength_def)
  ultimately show "csvRows s2 = csvRows (genesisCheck nowB PACKET_TYPE_ACC s1) @
        [[Num (rat_of_int T + 80), Num 40],
         [Num (rat_of_int T + 96), Num 50],
         [Num (rat_of_int T + 112), Num 60]]"
    by simp
qed

theorem timestamps_reconstructed_witness:
  "(let A = [1, 0, 0, 10, 0, 0, 20, 0, 0, 30, 0, 0];
        B = [1, 1, 0, 40, 0, 0, 50, 0, 0, 60, 0, 0];
        P = [2, 1, 0, 7, 0, 0, 8, 0, 0];
        s1 = projr (handleNotification 1000 A newCollector);
        s2 = projr (handleNotification 2000 B s1);
        s3 = projr (handleNotification 5000 P s2)
    in 3 \<le> byteLength A \<and> 1 \<le> sampleCount A \<and> getUint16 A 1 True = Inr 0 \<and>
       getUint8 A 0 = Inr PACKET_TYPE_ACC \<and>
       3 \<le> byteLength P \<and> 1 \<le> sampleCount P \<and> getUint16 P 1 True = Inr 1 \<and>
       getUint8 P 0 = Inr PACKET_TYPE_PPG \<and>
       handleNotification 1000 A newCollector = Inr s1 \<and>
       handleNotification 2000 B s1 = Inr s2 \<and>
       handleNotification 5000 P s2 = Inr s3 \<and>
       genesisTS s1 PACKET_TYPE_ACC = Some 1000 \<and>
       genesisTS s2 PACKET_TYPE_ACC = Some 1000 \<and>
       reachable newCollector \<and> reachable s2 \<and>
       deref s1 (getAccData newCollector) =
         [\<lparr>timestamp_ms = 1000, sample_value = 10, sample_type = PACKET_TYPE_ACC\<rparr>,
          \<lparr>timestamp_ms = 1016, sample_value = 20, sample_type = PACKET_TYPE_ACC\<rparr>,
          \<lparr>timestamp_ms = 1032, sample_value = 30, sample_type = PACKET_TYPE_ACC\<rparr>] \<and>
       csvRows s2 =
         [[Str ''timestamp_ms'', Str ''magnitude_ug''],
          [Num 1000, Num 10], [Num 1016, Num 20], [Num 1032, Num 30],
          [Num 1080, Num 40], [Num 1096, Num 50], [Num 1112, Num 60]] \<and>
       csvRows s3 = csvRows s2 @
         [[Str ''timestamp_ms'', Str ''green''],
          [Num (10025 / 2), Num 7], [Num 5015, Num 8]] \<and>
       deref s3 (getPpgData s2) = deref s2 (getPpgData s2) @
         [\<lparr>timestamp_ms = 10025 / 2, sample_value = 7, sample_type = PACKET_TYPE_PPG\<rparr>,
          \<lparr>timestamp_ms = 5015, sample_value = 8, sample_type = PACKET_TYPE_PPG\<rparr>])"
proof -
  define A :: DataView where "A = [1, 0, 0, 10, 0, 0, 20, 0, 0, 30, 0, 0]"
  define B :: DataView where "B = [1, 1, 0, 40, 0, 0, 50, 0, 0, 60, 0, 0]"
  define P :: DataView where "P = [2, 1, 0, 7, 0, 0, 8, 0, 0]"
  obtain s1 where h1: "handleNotification 1000 A newCollector = Inr s1"
    using handleNotification_total by blast
  obtain s2 where h2: "handleNotification 2000 B s1 = Inr s2"
    using handleNotification_total by blast
  obtain s3 where h3: "handleNotification 5000 P s2 = Inr s3"
    using handleNotification_total by blast
  have vA: "3 \<le> byteLength A" "1 \<le> sampleCount A" "getUint16 A 1 True = Inr 0"
    "getUint8 A 0 = Inr PACKET_TYPE_ACC"
    by (simp_all add: A_def sampleCount_def getUint8_def getUint16_def byteLength_def
        PACKET_TYPE_ACC_def)
  have vB: "0 < sampleCount B" "getUint8 B 0 = Inr PACKET_TYPE_ACC"
    by (simp_all add: B_def sampleCount_def getUint8_def byteLength_def PACKET_TYPE_ACC_def)
  have vP: "3 \<le> byteLength P" "1 \<le> sampleCount P" "getUint16 P 1 True = Inr 1"
    "getUint8 P 0 = Inr PACKET_TYPE_PPG"
    by (simp_all add: P_def sampleCount_def getUint8_def getUint16_def byteLength_def
        PACKET_TYPE_PPG_def)
  have g1: "genesisTS s1 = (\<lambda>_. None)(PACKET_TYPE_ACC := Some 1000)"
    using handleNotification_genesisTS [OF _ vA(4) h1] vA(2)
    by (simp add: genesisCheck_def newCollector_def falsy_def)
  have c1: "genesisCheck 2000 PACKET_TYPE_ACC s1 = s1"
    by (simp add: genesisCheck_def g1 falsy_def)
  have g2: "genesisTS s2 = genesisTS s1"
    using handleNotification_genesisTS [OF vB h2] by (simp add: c1)
  have r2: "reachable s2"
    using reachable.notified [OF reachable.notified [OF reachable.constructed h1] h2] .
  from timestamps_reconstructed [of A 0 now newCollector 1000 s1 2000 s2 1000] h1 h2 g1 g2
  have rows: "csvRows s2 = csvRows (genesisCheck 1000 PACKET_TYPE_ACC newCollector) @
        [[Num 1000, Num 10], [Num 1016, Num 20], [Num 1032, Num 30]] @
        [[Num 1080, Num 40], [Num 1096, Num 50], [Num 1112, Num 60]]"
    by (simp add: A_def B_def c1)
  have rows2: "csvRows s2 =
         [[Str ''timestamp_ms'', Str ''magnitude_ug''],
          [Num 1000, Num 10], [Num 1016, Num 20], [Num 1032, Num 30],
          [Num 1080, Num 40], [Num 1096, Num 50], [Num 1112, Num 60]]"
    unfolding rows by (simp add: genesisCheck_def newCollector_def falsy_def)
  have gp: "genesisTS s3 PACKET_TYPE_PPG = Some 5000"
    using handleNotification_genesisTS [OF _ vP(4) h3] vP(2)
    by (simp add: genesisCheck_def g2 g1 falsy_def types_distinct [symmetric])
  have cp: "csvRows (genesisCheck 5000 PACKET_TYPE_PPG s2) =
              csvRows s2 @ [[Str ''timestamp_ms'', Str ''green'']]"
    by (simp add: genesisCheck_def g2 g1 falsy_def types_distinct [symmetric])
  have nP: "[0..<nat (sampleCount P)] = [0, 1]"
    by (simp add: P_def sampleCount_def byteLength_def eval_nat_numeral upt_rec)
  have rP: "readSample P 3 = Inr 7" "readSample P 6 = Inr 8"
    by (simp_all add: P_def readSample_in_range byteLength_def)
  from timestamps_reconstructed [of P 1 5000 s2] vP h3 gp r2
  have p: "csvRows s3 = csvRows (genesisCheck 5000 PACKET_TYPE_PPG s2) @
           map (\<lambda>i. [Num (rat_of_int 5000 + rat_of_nat (1 * 5 + i) * (5 / 2)),
                     Num (rat_of_int (projr (readSample P (3 + i * 3))))])
             [0..<nat (sampleCount P)]"
    "deref s3 (getPpgData s2) = deref s2 (getPpgData s2) @
              map (\<lambda>i. \<lparr>timestamp_ms = rat_of_int 5000 + rat_of_nat (1 * 5 + i) * (5 / 2),
                        sample_value = projr (readSample P (3 + i * 3)),
                        sample_type = PACKET_TYPE_PPG\<rparr>)
                [0..<nat (sampleCount P)]"
    by auto
  have p1: "csvRows s3 = csvRows s2 @
         [[Str ''timestamp_ms'', Str ''green''],
          [Num (10025 / 2), Num 7], [Num 5015, Num 8]]"
    unfolding p(1) cp nP by (simp add: rP)
  have p2: "deref s3 (getPpgData s2) = deref s2 (getPpgData s2) @
         [\<lparr>timestamp_ms = 10025 / 2, sample_value = 7, sample_type = PACKET_TYPE_PPG\<rparr>,
          \<lparr>timestamp_ms = 5015, sample_value = 8, sample_type = PACKET_TYPE_PPG\<rparr>]"
    unfolding p(2) nP by (simp add: rP)
  have nA: "[0..<nat (sampleCount A)] = [0, 1, 2]"
    by (simp add: A_def sampleCount_def byteLength_def eval_nat_numeral upt_rec)
  have rA: "readSample A 3 = Inr 10" "readSample A 6 = Inr 20" "readSample A 9 = Inr 30"
    by (simp_all add: A_def readSample_in_range byteLength_def)
  have e0: "deref newCollector (getAccData newCollector) = []"
    by (simp add: deref_def getAccData_def newCollector_def)
  from timestamps_reconstructed [of A 0 1000 newCollector] vA h1 g1 reachable.constructed
  have "deref s1 (getAccData newCollector) = deref newCollector (getAccData newCollector) @
              map (\<lambda>i. \<lparr>timestamp_ms = rat_of_int 1000 + rat_of_nat (0 * 5 + i) * 16,
                        sample_value = projr (readSample A (3 + i * 3)),
                        sample_type = PACKET_TYPE_ACC\<rparr>)
                [0..<nat (sampleCount A)]"
    by auto
  then have a1: "deref s1 (getAccData newCollector) =
         [\<lparr>timestamp_ms = 1000, sample_value = 10, sample_type = PACKET_TYPE_ACC\<rparr>,
          \<lparr>timestamp_ms = 1016, sample_value = 20, sample_type = PACKET_TYPE_ACC\<rparr>,
          \<lparr>timestamp_ms = 1032, sample_value = 30, sample_type = PACKET_TYPE_ACC\<rparr>]"
    unfolding nA e0 by (simp add: rA)
  have "genesisTS s1 PACKET_TYPE_ACC = Some 1000" "genesisTS s2 PACKET_TYPE_ACC = Some 1000"
    by (simp_all add: g1 g2)
  with vA vP h1 h2 h3 r2 rows2 p1 p2 a1 reachable.constructed show ?thesis
    unfolding Let_def by (simp add: A_def B_def P_def)
qed

section \<open>The genesis epochs\<close>

text \<open>One notification: the genesis of a type is written only by a valid packet of that
  type that finds the entry falsy.\<close>

lemma handleNotification_genesis_step:
  assumes "handleNotification now dv s = Inr s'"
  shows "genesisTS s' t =
           (if 3 \<le> byteLength dv \<and> 1 \<le> sampleCount dv \<and> getUint8 dv 0 = Inr t \<and>
               falsy (genesisTS s t)
            then Some now else genesisTS s t)"
proof (cases "0 < sampleCount dv")
  case False
  then have "handleNotification now dv s = Inr s"
    by (intro handleNotification_short) simp
  with assms False show ?thesis by simp
next
  case True
  then have len: "3 \<le> byteLength dv" using valid_length [OF True] by simp
  have g: "genesisTS s' = genesisTS (genesisCheck now (unat (dv ! 0)) s)"
    by (rule handleNotification_genesisTS [OF True header_reads(1) [OF len] assms])
  show ?thesis
  proof (cases "unat (dv ! 0) = t")
    case True
    then show ?thesis
      using \<open>0 < sampleCount dv\<close> len
      by (simp add: g genesisCheck_genesisTS header_reads(1) [OF len])
  next
    case False
    then show ?thesis
      by (simp add: g genesisCheck_other header_reads(1) [OF len])
  qed
qed

lemma genesis_kept:
  assumes "genesisTS s t = Some g" "g \<noteq> 0" "handleNotifications ns s = Inr s'"
  shows "genesisTS s' t = Some g"
  using assms
proof (induction ns arbitrary: s)
  case Nil
  then show ?case by simp
next
  case (Cons n ns)
  obtain now dv where n: "n = (now, dv)" by (cases n)
  obtain s1 where s1: "handleNotification now dv s = Inr s1"
    using handleNotification_total by blast
  have "genesisTS s1 t = Some g"
    using handleNotification_genesis_step [OF s1, of t] Cons.prems(1,2)
    by (simp add: falsy_def)
  moreover have "handleNotifications ns s1 = Inr s'"
    using Cons.prems(3) by (simp add: n s1)
  ultimately show ?case using Cons.IH Cons.prems(2) by blast
qed

lemma genesis_first_valid:
  assumes P: "\<And>now dv. P (now, dv) =
                (3 \<le> byteLength dv \<and> 1 \<le> sampleCount dv \<and> getUint8 dv 0 = Inr t)"
    and "genesisTS s t = None" "handleNotifications ns s = Inr s'"
  shows "case find P ns of
           None \<Rightarrow> genesisTS s' t = None
         | Some (now, dv) \<Rightarrow> now \<noteq> 0 \<longrightarrow> genesisTS s' t = Some now"
  using assms(2,3)
proof (induction ns arbitrary: s)
  case Nil
  then show ?case by simp
next
  case (Cons n ns)
  obtain now dv where n: "n = (now, dv)" by (cases n)
  obtain s1 where s1: "handleNotification now dv s = Inr s1"
    using handleNotification_total by blast
  have rest: "handleNotifications ns s1 = Inr s'"
    using Cons.prems(2) by (simp add: n s1)
  show ?case
  proof (cases "P (now, dv)")
    case True
    then have "genesisTS s1 t = Some now"
      using handleNotification_genesis_step [OF s1, of t] Cons.prems(1)
      by (simp add: falsy_def P)
    then have "now \<noteq> 0 \<longrightarrow> genesisTS s' t = Some now"
      using genesis_kept [OF _ _ rest] by blast
    moreover have "find P (n # ns) = Some (now, dv)"
      using True by (simp add: n)
    ultimately show ?thesis by simp
  next
    case False
    then have "genesisTS s1 t = None"
      using handleNotification_genesis_step [OF s1, of t] Cons.prems(1)
      by (auto simp: P)
    from Cons.IH [OF this rest] have
      "case find P ns of
           None \<Rightarrow> genesisTS s' t = None
         | Some (now, dv) \<Rightarrow> now \<noteq> 0 \<longrightarrow> genesisTS s' t = Some now" .
    moreover have "find P (n # ns) = find P ns"
      using False by (simp add: n)
    ultimately show ?thesis by (simp only:)
  qed
qed

text \<open>
  At a clock reading other than 0 the genesis of a type is set once. In every sequence of
  notifications handled by a new collector, the genesis of a type is absent until the first
  valid packet of that type; if the clock does not read 0 at that packet, the genesis is that
  reading from then on, whatever follows. A genesis that is set to a reading other than 0
  is changed by no notification.
\<close>

lemma genesis_set_once_nonzero:
  "(\<exists>s'. handleNotifications ns newCollector = Inr s' \<and>
      (case find (\<lambda>(now, dv). 3 \<le> byteLength dv \<and> 1 \<le> sampleCount dv \<and>
                     getUint8 dv 0 = Inr t) ns of
         None \<Rightarrow> genesisTS s' t = None
       | Some (now, dv) \<Rightarrow> now \<noteq> 0 \<longrightarrow> genesisTS s' t = Some now))
   \<and> (genesisTS s t = Some g \<and> g \<noteq> 0 \<and> handleNotification now dv s = Inr s1 \<longrightarrow>
        genesisTS s1 t = Some g)"
proof (rule conjI)
  obtain s' where s': "handleNotifications ns newCollector = Inr s'"
    using handleNotifications_total by blast
  have "genesisTS newCollector t = None" by (simp add: newCollector_def)
  from genesis_first_valid [OF _ this s', of
      "\<lambda>(now, dv). 3 \<le> byteLength dv \<and> 1 \<le> sampleCount dv \<and> getUint8 dv 0 = Inr t"] s'
  show "\<exists>s'. handleNotifications ns newCollector = Inr s' \<and>
      (case find (\<lambda>(now, dv). 3 \<le> byteLength dv \<and> 1 \<le> sampleCount dv \<and>
                     getUint8 dv 0 = Inr t) ns of
         None \<Rightarrow> genesisTS s' t = None
       | Some (now, dv) \<Rightarrow> now \<noteq> 0 \<longrightarrow> genesisTS s' t = Some now)"
    by blast
next
  show "genesisTS s t = Some g \<and> g \<noteq> 0 \<and> handleNotification now dv s = Inr s1 \<longrightarrow>
        genesisTS s1 t = Some g"
    using genesis_kept [of s t g "[(now, dv)]" s1] by simp
qed

text \<open>
  Claim C2. The genesis of a type is not set exactly once when the clock reads 0 at the
  first valid packet of the type. The handler tests the entry with \<open>!\<close>, and the stored
  reading 0 is falsy like the initial \<open>null\<close>: with the first valid ACC packet handled at
  clock 0, the genesis of ACC is 0 after it, and the second valid ACC packet, handled at
  clock 7, sets the genesis again, to 7, and appends a second header row to the log, its
  sample stamped from the new genesis.
\<close>

theorem genesis_reassigned_after_clock_zero:
  "genesisTS newCollector PACKET_TYPE_ACC = None \<and>
   genesisTS (projr (handleNotifications [(0, [1, 0, 0, 5, 0, 0])] newCollector))
     PACKET_TYPE_ACC = Some 0 \<and>
   genesisTS (projr (handleNotifications [(0, [1, 0, 0, 5, 0, 0]), (7, [1, 1, 0, 6, 0, 0])]
     newCollector)) PACKET_TYPE_ACC = Some 7 \<and>
   csvRows (projr (handleNotifications [(0, [1, 0, 0, 5, 0, 0]), (7, [1, 1, 0, 6, 0, 0])]
     newCollector)) =
     [[Str ''timestamp_ms'', Str ''magnitude_ug''], [Num 0, Num 5],
      [Str ''timestamp_ms'', Str ''magnitude_ug''], [Num 87, Num 6]]"
proof -
  define pk1 :: DataView where "pk1 = [1, 0, 0, 5, 0, 0]"
  define pk2 :: DataView where "pk2 = [1, 1, 0, 6, 0, 0]"
  have v1: "0 < sampleCount pk1" "getUint8 pk1 0 = Inr PACKET_TYPE_ACC"
    "getUint16 pk1 1 True = Inr 0"
    by (simp_all add: pk1_def sampleCount_def getUint8_def getUint16_def byteLength_def
        PACKET_TYPE_ACC_def)
  have v2: "0 < sampleCount pk2" "getUint8 pk2 0 = Inr PACKET_TYPE_ACC"
    "getUint16 pk2 1 True = Inr 1"
    by (simp_all add: pk2_def sampleCount_def getUint8_def getUint16_def byteLength_def
        PACKET_TYPE_ACC_def)
  have n: "[0..<nat (sampleCount pk1)] = [0]" "[0..<nat (sampleCount pk2)] = [0]"
    "3 \<le> byteLength pk1" "1 \<le> sampleCount pk1" "3 \<le> byteLength pk2" "1 \<le> sampleCount pk2"
    by (simp_all add: pk1_def pk2_def sampleCount_def byteLength_def)
  have w: "readSample pk1 3 = Inr 5" "readSample pk2 3 = Inr 6"
    using readSample_in_range [of 3 pk1] readSample_in_range [of 3 pk2]
    by (simp_all add: pk1_def pk2_def byteLength_def)
  have g0: "genesisTS newCollector PACKET_TYPE_ACC = None" "csvRows newCollector = []"
    by (simp_all add: newCollector_def)
  from handleNotification_acc [OF v1, of 0 newCollector]
  obtain s1 g where s1: "handleNotification 0 pk1 newCollector = Inr s1"
    and a1: "genesisTS s1 PACKET_TYPE_ACC = Some g"
    and c1: "csvRows s1 = csvRows (genesisCheck 0 PACKET_TYPE_ACC newCollector) @
             map (\<lambda>i. [Num (rat_of_int g + rat_of_nat (0 * 5 + i) * 16),
                       Num (rat_of_int (projr (readSample pk1 (3 + i * 3))))])
               [0..<nat (sampleCount pk1)]"
    by blast
  have g1: "genesisTS s1 PACKET_TYPE_ACC = Some 0"
    using handleNotification_genesis_step [OF s1, of PACKET_TYPE_ACC] v1(2) n(3,4) g0(1)
    by (simp add: falsy_def)
  have "g = 0" using a1 g1 by simp
  then have r1: "csvRows s1 = [[Str ''timestamp_ms'', Str ''magnitude_ug''], [Num 0, Num 5]]"
    using c1 by (simp add: genesisCheck_csvRows g0 falsy_def n(1) w)
  from handleNotification_acc [OF v2, of 7 s1]
  obtain s2 g' where s2: "handleNotification 7 pk2 s1 = Inr s2"
    and a2: "genesisTS s2 PACKET_TYPE_ACC = Some g'"
    and c2: "csvRows s2 = csvRows (genesisCheck 7 PACKET_TYPE_ACC s1) @
             map (\<lambda>i. [Num (rat_of_int g' + rat_of_nat (1 * 5 + i) * 16),
                       Num (rat_of_int (projr (readSample pk2 (3 + i * 3))))])
               [0..<nat (sampleCount pk2)]"
    by blast
  have g2: "genesisTS s2 PACKET_TYPE_ACC = Some 7"
    using handleNotification_genesis_step [OF s2, of PACKET_TYPE_ACC] v2(2) n(5,6) g1
    by (simp add: falsy_def)
  have "g' = 7" using a2 g2 by simp
  then have r2: "csvRows s2 = [[Str ''timestamp_ms'', Str ''magnitude_ug''], [Num 0, Num 5],
      [Str ''timestamp_ms'', Str ''magnitude_ug''], [Num 87, Num 6]]"
    using c2 by (simp add: genesisCheck_csvRows g1 r1 falsy_def n(2) w)
  from g0(1) g1 g2 r2 show ?thesis
    by (simp add: s1 s2 flip: pk1_def pk2_def)
qed

section \<open>What a packet leaves alone\<close>

lemma handleNotification_other_buffers:
  assumes c: "consistent s" and v: "0 < sampleCount dv" and t: "getUint8 dv 0 = Inr t"
    and h: "handleNotification now dv s = Inr s'"
  shows "t \<noteq> PACKET_TYPE_PPG \<Longrightarrow>
           ppgDataPoints s' = ppgDataPoints s \<and>
           heap s' (ppgDataPoints s') = heap s (ppgDataPoints s)"
    and "t \<noteq> PACKET_TYPE_ACC \<Longrightarrow>
           accDataPoints s' = accDataPoints s \<and>
           heap s' (accDataPoints s') = heap s (accDataPoints s)"
    and "take (length (csvRows s)) (csvRows s') = csvRows s"
    and "\<And>u. u \<noteq> t \<Longrightarrow> genesisTS s' u = genesisTS s u"
proof -
  have len: "3 \<le> byteLength dv" using valid_length [OF v] by simp
  define s1 where "s1 = genesisCheck now t s"
  obtain s2 where s2:
    "sampleLoop dv t (unat (dv ! 1) + 256 * unat (dv ! 2)) (sampleCount dv) 0 s1 = Inr s2"
    "accDataPoints s2 = accDataPoints s1" "ppgDataPoints s2 = ppgDataPoints s1"
    "nextRef s2 = nextRef s1" "genesisTS s2 = genesisTS s1"
    "take (length (csvRows s1)) (csvRows s2) = csvRows s1"
    "\<forall>r. (r \<noteq> accDataPoints s1 \<or> t \<noteq> PACKET_TYPE_ACC) \<longrightarrow>
         (r \<noteq> ppgDataPoints s1 \<or> t \<noteq> PACKET_TYPE_PPG) \<longrightarrow> heap s2 r = heap s1 r"
    using sampleLoop_frame [OF order_refl, of dv t _ 0 s1] by blast
  have s': "s' = trimPpgBuffer (trimAccBuffer s2)"
    using h s2(1)
    by (simp add: handleNotification_valid [OF v t header_reads(2) [OF len]] s1_def)
  have refs: "accDataPoints s2 = accDataPoints s" "ppgDataPoints s2 = ppgDataPoints s"
    "nextRef s2 = nextRef s"
    by (simp_all add: s2 s1_def genesisCheck_frame)
  have cs: "accDataPoints s \<noteq> ppgDataPoints s" "accDataPoints s < nextRef s"
    "ppgDataPoints s < nextRef s" "withinWindow (heap s (accDataPoints s))"
    "withinWindow (heap s (ppgDataPoints s))"
    using c by (simp_all add: consistent_def)
  have heap2: "(r \<noteq> accDataPoints s \<or> t \<noteq> PACKET_TYPE_ACC) \<Longrightarrow>
         (r \<noteq> ppgDataPoints s \<or> t \<noteq> PACKET_TYPE_PPG) \<Longrightarrow> heap s2 r = heap s r" for r
    using s2(7) by (simp add: s1_def genesisCheck_frame)
  show "ppgDataPoints s' = ppgDataPoints s \<and>
           heap s' (ppgDataPoints s') = heap s (ppgDataPoints s)"
    if "t \<noteq> PACKET_TYPE_PPG"
  proof -
    have p2: "heap s2 (ppgDataPoints s) = heap s (ppgDataPoints s)"
      using heap2 [of "ppgDataPoints s"] that cs(1) by auto
    define s3 where "s3 = trimAccBuffer s2"
    have p3: "ppgDataPoints s3 = ppgDataPoints s"
      by (simp add: s3_def trimAccBuffer_frame refs)
    have "heap s3 (ppgDataPoints s) = heap s2 (ppgDataPoints s)"
      unfolding s3_def using cs(3) by (intro trimAccBuffer_heap) (simp add: refs)
    then have "withinWindow (heap s3 (ppgDataPoints s3))"
      "heap s3 (ppgDataPoints s3) = heap s (ppgDataPoints s)"
      using cs(5) by (simp_all add: p3 p2)
    moreover from this(1) have "trimPpgBuffer s3 = s3" by (rule trimPpgBuffer_noop)
    ultimately show ?thesis by (simp add: s' p3 flip: s3_def)
  qed
  show "accDataPoints s' = accDataPoints s \<and>
           heap s' (accDataPoints s') = heap s (accDataPoints s)"
    if "t \<noteq> PACKET_TYPE_ACC"
  proof -
    have a2: "heap s2 (accDataPoints s2) = heap s (accDataPoints s)"
      using heap2 [of "accDataPoints s"] that cs(1) by (auto simp: refs)
    then have "withinWindow (heap s2 (accDataPoints s2))" using cs(4) by simp
    then have n: "trimAccBuffer s2 = s2" by (rule trimAccBuffer_noop)
    have "heap (trimPpgBuffer s2) (accDataPoints s) = heap s2 (accDataPoints s)"
      using cs(2) by (intro trimPpgBuffer_heap) (simp add: refs)
    then show ?thesis
      using a2 by (simp add: s' n trimPpgBuffer_frame refs)
  qed
  have "csvRows s' = csvRows s2"
    by (simp add: s' trimPpgBuffer_frame trimAccBuffer_frame)
  moreover obtain hd where "csvRows s1 = csvRows s @ hd"
    using genesisCheck_csvRows [of now t s] unfolding s1_def by blast
  ultimately show "take (length (csvRows s)) (csvRows s') = csvRows s"
    using s2(6) by (metis append_eq_conv_conj take_take min.cobounded1 length_append
        le_add1 min_def)
  show "genesisTS s' u = genesisTS s u" if "u \<noteq> t" for u
    using that by (simp add: s' trimPpgBuffer_frame trimAccBuffer_frame s2 s1_def
        genesisCheck_other)
qed

text \<open>
  Claim C10. On a collector in a state it can reach, a valid ACC packet is handled without
  an error and leaves the PPG genesis, the PPG buffer (the array and its contents) and the
  rows already in the log as they were; a valid PPG packet does the same for the ACC
  genesis and the ACC buffer.
\<close>

theorem other_sensor_untouched:
  "(reachable s \<and> 3 \<le> byteLength dv \<and> 1 \<le> sampleCount dv \<and>
    getUint8 dv 0 = Inr PACKET_TYPE_ACC \<longrightarrow>
      (\<exists>s'. handleNotification now dv s = Inr s' \<and>
         genesisTS s' PACKET_TYPE_PPG = genesisTS s PACKET_TYPE_PPG \<and>
         getPpgData s' = getPpgData s \<and>
         deref s' (getPpgData s') = deref s (getPpgData s) \<and>
         take (length (csvRows s)) (csvRows s') = csvRows s))
   \<and>
   (reachable s \<and> 3 \<le> byteLength dv \<and> 1 \<le> sampleCount dv \<and>
    getUint8 dv 0 = Inr PACKET_TYPE_PPG \<longrightarrow>
      (\<exists>s'. handleNotification now dv s = Inr s' \<and>
         genesisTS s' PACKET_TYPE_ACC = genesisTS s PACKET_TYPE_ACC \<and>
         getAccData s' = getAccData s \<and>
         deref s' (getAccData s') = deref s (getAccData s) \<and>
         take (length (csvRows s)) (csvRows s') = csvRows s))"
proof (intro conjI impI; elim conjE)
  assume a: "reachable s" "1 \<le> sampleCount dv" "getUint8 dv 0 = Inr PACKET_TYPE_ACC"
  obtain s' where h: "handleNotification now dv s = Inr s'"
    using handleNotification_total by blast
  have v: "0 < sampleCount dv" using a(2) by simp
  note f = handleNotification_other_buffers [OF reachable_consistent [OF a(1)] v a(3) h]
  show "\<exists>s'. handleNotification now dv s = Inr s' \<and>
         genesisTS s' PACKET_TYPE_PPG = genesisTS s PACKET_TYPE_PPG \<and>
         getPpgData s' = getPpgData s \<and>
         deref s' (getPpgData s') = deref s (getPpgData s) \<and>
         take (length (csvRows s)) (csvRows s') = csvRows s"
    using h f(1) [OF types_distinct] f(3) f(4) [OF types_distinct [symmetric]]
    by (auto simp: getPpgData_def deref_def)
next
  assume a: "reachable s" "1 \<le> sampleCount dv" "getUint8 dv 0 = Inr PACKET_TYPE_PPG"
  obtain s' where h: "handleNotification now dv s = Inr s'"
    using handleNotification_total by blast
  have v: "0 < sampleCount dv" using a(2) by simp
  note f = handleNotification_other_buffers [OF reachable_consistent [OF a(1)] v a(3) h]
  show "\<exists>s'. handleNotification now dv s = Inr s' \<and>
         genesisTS s' PACKET_TYPE_ACC = genesisTS s PACKET_TYPE_ACC \<and>
         getAccData s' = getAccData s \<and>
         deref s' (getAccData s') = deref s (getAccData s) \<and>
         take (length (csvRows s)) (csvRows s') = csvRows s"
    using h f(2) [OF types_distinct [symmetric]] f(3) f(4) [OF types_distinct]
    by (auto simp: getAccData_def deref_def)
qed

theorem other_sensor_untouched_witness:
  "(let P = [2, 0, 0, 7, 0, 0]; A = [1, 0, 0, 5, 0, 0];
        s1 = projr (handleNotification 1000 P newCollector);
        s2 = projr (handleNotification 2000 A s1);
        s3 = projr (handleNotification 3000 P s2)
    in reachable s1 \<and> 3 \<le> byteLength A \<and> 1 \<le> sampleCount A \<and>
       getUint8 A 0 = Inr PACKET_TYPE_ACC \<and>
       reachable s2 \<and> 3 \<le> byteLength P \<and> 1 \<le> sampleCount P \<and>
       getUint8 P 0 = Inr PACKET_TYPE_PPG \<and>
       genesisTS s1 PACKET_TYPE_PPG = Some 1000 \<and>
       genesisTS s2 PACKET_TYPE_PPG = Some 1000 \<and>
       getPpgData s2 = getPpgData s1 \<and>
       deref s2 (getPpgData s2) = deref s1 (getPpgData s1) \<and>
       take (length (csvRows s1)) (csvRows s2) = csvRows s1 \<and>
       genesisTS s2 PACKET_TYPE_ACC = Some 2000 \<and>
       genesisTS s3 PACKET_TYPE_ACC = Some 2000 \<and>
       getAccData s3 = getAccData s2 \<and>
       deref s3 (getAccData s3) = deref s2 (getAccData s2) \<and>
       take (length (csvRows s2)) (csvRows s3) = csvRows s2)"
proof -
  define P :: DataView where "P = [2, 0, 0, 7, 0, 0]"
  define A :: DataView where "A = [1, 0, 0, 5, 0, 0]"
  obtain s1 where h1: "handleNotification 1000 P newCollector = Inr s1"
    using handleNotification_total by blast
  obtain s2 where h2: "handleNotification 2000 A s1 = Inr s2"
    using handleNotification_total by blast
  obtain s3 where h3: "handleNotification 3000 P s2 = Inr s3"
    using handleNotification_total by blast
  have vA: "3 \<le> byteLength A" "1 \<le> sampleCount A" "getUint8 A 0 = Inr PACKET_TYPE_ACC"
    by (simp_all add: A_def sampleCount_def getUint8_def byteLength_def PACKET_TYPE_ACC_def)
  have vP: "3 \<le> byteLength P" "1 \<le> sampleCount P" "getUint8 P 0 = Inr PACKET_TYPE_PPG"
    by (simp_all add: P_def sampleCount_def getUint8_def byteLength_def PACKET_TYPE_PPG_def)
  have r1: "reachable s1" using reachable.notified [OF reachable.constructed h1] .
  have r2: "reachable s2" using reachable.notified [OF r1 h2] .
  have g1: "genesisTS s1 PACKET_TYPE_PPG = Some 1000" "genesisTS s1 PACKET_TYPE_ACC = None"
    using handleNotification_genesis_step [OF h1] vP
    by (simp_all add: newCollector_def falsy_def types_distinct types_distinct [symmetric])
  have g2: "genesisTS s2 PACKET_TYPE_ACC = Some 2000"
    using handleNotification_genesis_step [OF h2, of PACKET_TYPE_ACC] vA g1
    by (simp add: falsy_def)
  from other_sensor_untouched [of s1 A 2000, THEN conjunct1] r1 vA h2
  have k2: "genesisTS s2 PACKET_TYPE_PPG = genesisTS s1 PACKET_TYPE_PPG"
    "getPpgData s2 = getPpgData s1"
    "deref s2 (getPpgData s2) = deref s1 (getPpgData s1)"
    "take (length (csvRows s1)) (csvRows s2) = csvRows s1"
    by auto
  from other_sensor_untouched [of s2 P 3000, THEN conjunct2] r2 vP h3
  have k3: "genesisTS s3 PACKET_TYPE_ACC = genesisTS s2 PACKET_TYPE_ACC"
    "getAccData s3 = getAccData s2"
    "deref s3 (getAccData s3) = deref s2 (getAccData s2)"
    "take (length (csvRows s2)) (csvRows s3) = csvRows s2"
    by auto
  from r1 r2 vA vP g1 g2 k2 k3 show ?thesis
    unfolding Let_def by (simp add: h1 h2 h3 flip: A_def P_def)
qed

section \<open>Packets of an unknown type\<close>

lemma handleNotification_unknown:
  assumes c: "consistent s" and v: "0 < sampleCount dv" and t: "getUint8 dv 0 = Inr t"
    and u: "t \<noteq> PACKET_TYPE_ACC" "t \<noteq> PACKET_TYPE_PPG"
  shows "handleNotification now dv s = Inr (genesisCheck now t s)"
proof -
  have len: "3 \<le> byteLength dv" using valid_length [OF v] by simp
  define s1 where "s1 = genesisCheck now t s"
  have w: "withinWindow (heap s1 (accDataPoints s1))" "withinWindow (heap s1 (ppgDataPoints s1))"
    using c by (simp_all add: s1_def genesisCheck_frame consistent_def)
  have "trimPpgBuffer (trimAccBuffer s1) = s1"
    by (simp add: trimAccBuffer_noop [OF w(1)] trimPpgBuffer_noop [OF w(2)])
  then show ?thesis
    by (simp add: handleNotification_valid [OF v t header_reads(2) [OF len]]
        sampleLoop_other [OF order_refl u] flip: s1_def)
qed

text \<open>
  Claim C6, as amended. On a collector in a state it can reach, a packet that passes the
  length and sample-count checks and whose type byte is neither 1 nor 2 goes through the
  genesis check of its type byte and nothing else: neither buffer and no array changes and
  no sample row is logged. The genesis check, when the entry of that type byte is falsy,
  sets it to the clock reading and appends the header row \<open>timestamp_ms,green\<close> to the log.
\<close>

theorem unknown_type_packet:
  "reachable s \<and> 3 \<le> byteLength dv \<and> 1 \<le> sampleCount dv \<and> getUint8 dv 0 = Inr t \<and>
   t \<noteq> PACKET_TYPE_ACC \<and> t \<noteq> PACKET_TYPE_PPG \<longrightarrow>
     handleNotification now dv s = Inr (genesisCheck now t s) \<and>
     getAccData (genesisCheck now t s) = getAccData s \<and>
     getPpgData (genesisCheck now t s) = getPpgData s \<and>
     deref (genesisCheck now t s) r = deref s r \<and>
     csvRows (genesisCheck now t s) =
       csvRows s @
       (if falsy (genesisTS s t) then [[Str ''timestamp_ms'', Str ''green'']] else []) \<and>
     genesisTS (genesisCheck now t s) =
       (if falsy (genesisTS s t) then (genesisTS s)(t := Some now) else genesisTS s)"
proof (intro impI; elim conjE)
  assume a: "reachable s" "1 \<le> sampleCount dv" "getUint8 dv 0 = Inr t"
    "t \<noteq> PACKET_TYPE_ACC" "t \<noteq> PACKET_TYPE_PPG"
  have v: "0 < sampleCount dv" using a(2) by simp
  have "handleNotification now dv s = Inr (genesisCheck now t s)"
    by (rule handleNotification_unknown [OF reachable_consistent [OF a(1)] v a(3,4,5)])
  then show "handleNotification now dv s = Inr (genesisCheck now t s) \<and>
     getAccData (genesisCheck now t s) = getAccData s \<and>
     getPpgData (genesisCheck now t s) = getPpgData s \<and>
     deref (genesisCheck now t s) r = deref s r \<and>
     csvRows (genesisCheck now t s) =
       csvRows s @
       (if falsy (genesisTS s t) then [[Str ''timestamp_ms'', Str ''green'']] else []) \<and>
     genesisTS (genesisCheck now t s) =
       (if falsy (genesisTS s t) then (genesisTS s)(t := Some now) else genesisTS s)"
    using a(4)
    by (simp add: getAccData_def getPpgData_def deref_def genesisCheck_frame
        genesisCheck_csvRows genesisCheck_genesisTS)
qed

theorem unknown_type_packet_witness:
  "(let dv = [3, 0, 0, 1, 2, 3];
        s1 = projr (handleNotification 1000 dv newCollector)
    in reachable newCollector \<and> reachable s1 \<and>
       3 \<le> byteLength dv \<and> 1 \<le> sampleCount dv \<and> getUint8 dv 0 = Inr 3 \<and>
       3 \<noteq> PACKET_TYPE_ACC \<and> 3 \<noteq> PACKET_TYPE_PPG \<and>
       handleNotification 1000 dv newCollector = Inr s1 \<and>
       csvRows s1 = [[Str ''timestamp_ms'', Str ''green'']] \<and>
       genesisTS s1 3 = Some 1000 \<and>
       deref s1 (getAccData s1) = [] \<and> deref s1 (getPpgData s1) = [] \<and>
       handleNotification 2000 dv s1 = Inr s1)"
proof -
  define dv :: DataView where "dv = [3, 0, 0, 1, 2, 3]"
  define s1 where "s1 = genesisCheck 1000 3 newCollector"
  have v: "3 \<le> byteLength dv" "1 \<le> sampleCount dv" "getUint8 dv 0 = Inr 3"
    "3 \<noteq> PACKET_TYPE_ACC" "3 \<noteq> PACKET_TYPE_PPG"
    by (simp_all add: dv_def sampleCount_def getUint8_def byteLength_def
        PACKET_TYPE_ACC_def PACKET_TYPE_PPG_def)
  from unknown_type_packet [of newCollector dv 3 1000] v reachable.constructed
  have h1: "handleNotification 1000 dv newCollector = Inr s1"
    by (simp add: s1_def)
  have r1: "reachable s1" using reachable.notified [OF reachable.constructed h1] .
  have f: "csvRows s1 = [[Str ''timestamp_ms'', Str ''green'']]" "genesisTS s1 3 = Some 1000"
    "deref s1 (getAccData s1) = []" "deref s1 (getPpgData s1) = []"
    using v(4) by (simp_all add: s1_def genesisCheck_def newCollector_def falsy_def deref_def
        getAccData_def getPpgData_def)
  have c: "genesisCheck 2000 3 s1 = s1"
    by (simp add: genesisCheck_def f(2) falsy_def)
  from unknown_type_packet [of s1 dv 3 2000] v r1
  have h2: "handleNotification 2000 dv s1 = Inr s1"
    by (simp add: c)
  from v r1 reachable.constructed h1 h2 f show ?thesis
    unfolding Let_def by (simp add: flip: dv_def)
qed

text \<open>
  Claim C6 as stated fails on the first packet of an unknown type byte: the log of a new
  collector is empty, and after a packet of type 3 it holds a header row.
\<close>

theorem unknown_type_header_counterexample:
  "csvRows newCollector = [] \<and>
   csvRows (projr (handleNotification 1000 [3, 0, 0, 1, 2, 3] newCollector)) =
     [[Str ''timestamp_ms'', Str ''green'']]"
proof -
  have "consistent newCollector" using reachable_consistent [OF reachable.constructed] .
  then have "handleNotification 1000 [3, 0, 0, 1, 2, 3] newCollector =
               Inr (genesisCheck 1000 3 newCollector)"
    by (rule handleNotification_unknown)
      (simp_all add: sampleCount_def getUint8_def byteLength_def
        PACKET_TYPE_ACC_def PACKET_TYPE_PPG_def)
  then show ?thesis
    by (simp add: genesisCheck_def newCollector_def falsy_def PACKET_TYPE_ACC_def)
qed

section \<open>Snapshots\<close>

lemma trim_keeps_old_array:
  "accDataPoints s < nextRef s \<Longrightarrow> heap (trimAccBuffer s) (accDataPoints s) = heap s (accDataPoints s)"
  "ppgDataPoints s < nextRef s \<Longrightarrow> heap (trimPpgBuffer s) (ppgDataPoints s) = heap s (ppgDataPoints s)"
  by (simp_all add: trimAccBuffer_heap trimPpgBuffer_heap)

subsection \<open>Arrays over a run\<close>

lemma handleNotification_nextRef:
  assumes "handleNotification now dv s = Inr s'"
  shows "nextRef s \<le> nextRef s'"
proof (cases "0 < sampleCount dv")
  case False
  then have "handleNotification now dv s = Inr s"
    by (intro handleNotification_short) simp
  with assms show ?thesis by simp
next
  case True
  then have len: "3 \<le> byteLength dv" using valid_length [OF True] by simp
  obtain s2 where s2:
    "sampleLoop dv (unat (dv ! 0)) (unat (dv ! 1) + 256 * unat (dv ! 2)) (sampleCount dv) 0
       (genesisCheck now (unat (dv ! 0)) s) = Inr s2"
    "nextRef s2 = nextRef (genesisCheck now (unat (dv ! 0)) s)"
    using sampleLoop_frame [OF order_refl] by blast
  have "s' = trimPpgBuffer (trimAccBuffer s2)"
    using assms s2(1) by (simp add: handleNotification_valid [OF True header_reads [OF len]])
  moreover have "nextRef s2 = nextRef s" by (simp add: s2(2) genesisCheck_frame)
  ultimately show ?thesis
    using trimAccBuffer_nextRef [of s2] trimPpgBuffer_nextRef [of "trimAccBuffer s2"] by simp
qed

text \<open>An allocated array that is neither buffer is left as it is by every notification.\<close>

lemma handleNotification_stale:
  assumes r: "r < nextRef s" "r \<noteq> accDataPoints s" "r \<noteq> ppgDataPoints s"
    and h: "handleNotification now dv s = Inr s'"
  shows "heap s' r = heap s r"
proof (cases "0 < sampleCount dv")
  case False
  then have "handleNotification now dv s = Inr s"
    by (intro handleNotification_short) simp
  with h show ?thesis by simp
next
  case True
  then have len: "3 \<le> byteLength dv" using valid_length [OF True] by simp
  define s1 where "s1 = genesisCheck now (unat (dv ! 0)) s"
  obtain s2 where s2:
    "sampleLoop dv (unat (dv ! 0)) (unat (dv ! 1) + 256 * unat (dv ! 2)) (sampleCount dv) 0 s1
       = Inr s2"
    "nextRef s2 = nextRef s1"
    "\<forall>r. (r \<noteq> accDataPoints s1 \<or> unat (dv ! 0) \<noteq> PACKET_TYPE_ACC) \<longrightarrow>
         (r \<noteq> ppgDataPoints s1 \<or> unat (dv ! 0) \<noteq> PACKET_TYPE_PPG) \<longrightarrow> heap s2 r = heap s1 r"
    using sampleLoop_frame [OF order_refl, of dv _ _ 0 s1] by blast
  have s': "s' = trimPpgBuffer (trimAccBuffer s2)"
    using h s2(1)
    by (simp add: handleNotification_valid [OF True header_reads [OF len]] s1_def)
  have "heap s2 r = heap s r"
    using s2(3) r(2,3) by (simp add: s1_def genesisCheck_frame)
  moreover have "r < nextRef s2" using r(1) by (simp add: s2(2) s1_def genesisCheck_frame)
  ultimately show ?thesis unfolding s' by (simp add: old_array_after_trims)
qed

text \<open>After a notification each buffer is the array it was or an array allocated by it.\<close>

lemma handleNotification_refs:
  assumes c: "consistent s" and h: "handleNotification now dv s = Inr s'"
  shows "accDataPoints s' = accDataPoints s \<or> nextRef s \<le> accDataPoints s'"
    and "ppgDataPoints s' = ppgDataPoints s \<or> nextRef s \<le> ppgDataPoints s'"
proof -
  have "(accDataPoints s' = accDataPoints s \<or> nextRef s \<le> accDataPoints s') \<and>
        (ppgDataPoints s' = ppgDataPoints s \<or> nextRef s \<le> ppgDataPoints s')"
  proof (cases "0 < sampleCount dv")
    case False
    then have "handleNotification now dv s = Inr s"
      by (intro handleNotification_short) simp
    with h show ?thesis by simp
  next
    case True
    then have len: "3 \<le> byteLength dv" using valid_length [OF True] by simp
    define s1 where "s1 = genesisCheck now (unat (dv ! 0)) s"
    obtain s2 where s2:
      "sampleLoop dv (unat (dv ! 0)) (unat (dv ! 1) + 256 * unat (dv ! 2)) (sampleCount dv) 0 s1
         = Inr s2"
      "accDataPoints s2 = accDataPoints s1" "ppgDataPoints s2 = ppgDataPoints s1"
      "nextRef s2 = nextRef s1"
      using sampleLoop_frame [OF order_refl, of dv _ _ 0 s1] by blast
    have s': "s' = trimPpgBuffer (trimAccBuffer s2)"
      using h s2(1)
      by (simp add: handleNotification_valid [OF True header_reads [OF len]] s1_def)
    have refs: "accDataPoints s2 = accDataPoints s" "ppgDataPoints s2 = ppgDataPoints s"
      "nextRef s2 = nextRef s"
      by (simp_all add: s2 s1_def genesisCheck_frame)
    have lt: "accDataPoints s2 < nextRef s2" "ppgDataPoints s2 < nextRef s2"
      using c by (simp_all add: refs consistent_def)
    define s3 where "s3 = trimAccBuffer s2"
    have a3: "accDataPoints s3 = accDataPoints s \<or> accDataPoints s3 = nextRef s"
      using trimAccBuffer_ref [OF lt(1)] by (simp add: s3_def refs)
    have p3: "ppgDataPoints s3 = ppgDataPoints s" "nextRef s \<le> nextRef s3"
      "ppgDataPoints s3 < nextRef s3"
      using trimAccBuffer_nextRef [of s2] lt(2)
      by (simp_all add: s3_def trimAccBuffer_frame refs)
    have "ppgDataPoints s' = ppgDataPoints s3 \<or> ppgDataPoints s' = nextRef s3"
      using trimPpgBuffer_ref [OF p3(3)] by (simp add: s' s3_def)
    moreover have "accDataPoints s' = accDataPoints s3"
      by (simp add: s' s3_def trimPpgBuffer_frame)
    ultimately show ?thesis using a3 p3 by auto
  qed
  then show "accDataPoints s' = accDataPoints s \<or> nextRef s \<le> accDataPoints s'"
    and "ppgDataPoints s' = ppgDataPoints s \<or> nextRef s \<le> ppgDataPoints s'"
    by simp_all
qed

text \<open>
  Over a run, an array that was a buffer stays allocated and never becomes the other buffer.
\<close>

lemma run_keeps_refs:
  assumes "reachable s" "handleNotifications ns s = Inr s'"
    and "r < nextRef s" "r \<noteq> ppgDataPoints s"
  shows "reachable s' \<and> r < nextRef s' \<and> r \<noteq> ppgDataPoints s'"
  using assms
proof (induction ns arbitrary: s)
  case Nil
  then show ?case by simp
next
  case (Cons n ns)
  obtain now dv where n: "n = (now, dv)" by (cases n)
  obtain s1 where s1: "handleNotification now dv s = Inr s1"
    using handleNotification_total by blast
  have rest: "handleNotifications ns s1 = Inr s'"
    using Cons.prems(2) by (simp add: n s1)
  have "reachable s1" using reachable.notified [OF Cons.prems(1) s1] .
  moreover have "r < nextRef s1"
    using handleNotification_nextRef [OF s1] Cons.prems(3) by simp
  moreover have "r \<noteq> ppgDataPoints s1"
    using handleNotification_refs(2) [OF reachable_consistent [OF Cons.prems(1)] s1]
      Cons.prems(3,4) by auto
  ultimately show ?case using Cons.IH [OF _ rest] by blast
qed

lemma run_keeps_refs':
  assumes "reachable s" "handleNotifications ns s = Inr s'"
    and "r < nextRef s" "r \<noteq> accDataPoints s"
  shows "r < nextRef s' \<and> r \<noteq> accDataPoints s'"
  using assms
proof (induction ns arbitrary: s)
  case Nil
  then show ?case by simp
next
  case (Cons n ns)
  obtain now dv where n: "n = (now, dv)" by (cases n)
  obtain s1 where s1: "handleNotification now dv s = Inr s1"
    using handleNotification_total by blast
  have rest: "handleNotifications ns s1 = Inr s'"
    using Cons.prems(2) by (simp add: n s1)
  have "reachable s1" using reachable.notified [OF Cons.prems(1) s1] .
  moreover have "r < nextRef s1"
    using handleNotification_nextRef [OF s1] Cons.prems(3) by simp
  moreover have "r \<noteq> accDataPoints s1"
    using handleNotification_refs(1) [OF reachable_consistent [OF Cons.prems(1)] s1]
      Cons.prems(3,4) by auto
  ultimately show ?case using Cons.IH [OF _ rest] by blast
qed

lemma dropWhile_id_hd:
  assumes "dropWhile P xs = xs" "xs \<noteq> []"
  shows "\<not> P (hd xs)"
proof
  assume p: "P (hd xs)"
  obtain x ys where xs: "xs = x # ys" using assms(2) by (cases xs) auto
  have "length (dropWhile P ys) \<le> length ys" by (rule length_dropWhile_le)
  moreover have "dropWhile P ys = x # ys" using assms(1) p by (simp add: xs)
  ultimately show False by simp
qed

text \<open>The ACC buffer after a valid ACC packet, and when it is a new array.\<close>

lemma handleNotification_acc_buffer:
  assumes c: "consistent s" and v: "0 < sampleCount dv"
    and t: "getUint8 dv 0 = Inr PACKET_TYPE_ACC" and h: "handleNotification now dv s = Inr s'"
  shows "\<exists>new. length new = nat (sampleCount dv) \<and>
           deref s' (getAccData s) = deref s (getAccData s) @ new \<and>
           deref s' (getAccData s') =
             dropWhile (\<lambda>d. timestamp_ms d <
                            timestamp_ms (last (deref s (getAccData s) @ new)) - 60000)
               (deref s (getAccData s) @ new) \<and>
           ((getAccData s' = getAccData s) =
              (deref s' (getAccData s') = deref s (getAccData s) @ new))"
proof -
  have len: "3 \<le> byteLength dv" using valid_length [OF v] by simp
  obtain cn where cn: "getUint16 dv 1 True = Inr cn"
    using header_reads(2) [OF len] by blast
  define s1 where "s1 = genesisCheck now PACKET_TYPE_ACC s"
  define new where "new =
             map (\<lambda>j. \<lparr>timestamp_ms = rat_of_int (orZero (genesisTS s1 PACKET_TYPE_ACC)) +
                            rat_of_nat (cn * 5 + j) * ACC_SAMPLE_PERIOD_MS,
                       sample_value = projr (readSample dv (3 + j * 3)),
                       sample_type = PACKET_TYPE_ACC\<rparr>) [0..<nat (sampleCount dv)]"
  define rows where "rows =
             map (\<lambda>j. [Num (rat_of_int (orZero (genesisTS s1 PACKET_TYPE_ACC)) +
                            rat_of_nat (cn * 5 + j) * ACC_SAMPLE_PERIOD_MS),
                       Num (rat_of_int (projr (readSample dv (3 + j * 3))))])
               [0..<nat (sampleCount dv)]"
  define s2 where "s2 = s1\<lparr>csvRows := csvRows s1 @ rows,
           heap := (heap s1)(accDataPoints s1 := heap s1 (accDataPoints s1) @ new)\<rparr>"
  have loop: "sampleLoop dv PACKET_TYPE_ACC cn (sampleCount dv) 0 s1 = Inr s2"
    unfolding s2_def new_def rows_def by (rule sampleLoop_acc [OF order_refl])
  have s': "s' = trimPpgBuffer (trimAccBuffer s2)"
    using h
    by (simp add: handleNotification_valid [OF v t cn] loop flip: s1_def)
  have refs: "accDataPoints s2 = accDataPoints s" "nextRef s2 = nextRef s"
    by (simp_all add: s2_def s1_def genesisCheck_frame)
  have lt: "accDataPoints s < nextRef s" using c by (simp add: consistent_def)
  have arr: "heap s2 (accDataPoints s2) = heap s (accDataPoints s) @ new"
    by (simp add: s2_def s1_def genesisCheck_frame)
  have n: "length new = nat (sampleCount dv)" by (simp add: new_def)
  then have ne: "heap s (accDataPoints s) @ new \<noteq> []" using v by auto
  have old: "heap s' (accDataPoints s) = heap s (accDataPoints s) @ new"
    unfolding s' using lt arr by (simp add: old_array_after_trims refs)
  define s3 where "s3 = trimAccBuffer s2"
  have a3: "accDataPoints s3 < nextRef s3"
    using trimAccBuffer_ref [of s2] lt by (simp add: s3_def refs)
  have cur: "heap s' (accDataPoints s') = heap s3 (accDataPoints s3)"
    using trimPpgBuffer_heap [OF a3] by (simp add: s' trimPpgBuffer_frame flip: s3_def)
  have "heap s3 (accDataPoints s3) =
          dropWhile (\<lambda>d. timestamp_ms d <
                            timestamp_ms (last (heap s (accDataPoints s) @ new)) - 60000)
               (heap s (accDataPoints s) @ new)"
    using trimAccBuffer_contents [of s2] ne
    by (simp add: deref_def getAccData_def arr BUFFER_DURATION_MS_def flip: s3_def)
  with cur have dw: "heap s' (accDataPoints s') =
          dropWhile (\<lambda>d. timestamp_ms d <
                            timestamp_ms (last (heap s (accDataPoints s) @ new)) - 60000)
               (heap s (accDataPoints s) @ new)"
    by simp
  have iff: "(accDataPoints s' = accDataPoints s) =
               (heap s' (accDataPoints s') = heap s (accDataPoints s) @ new)"
  proof
    assume "accDataPoints s' = accDataPoints s"
    then show "heap s' (accDataPoints s') = heap s (accDataPoints s) @ new"
      using old by simp
  next
    assume "heap s' (accDataPoints s') = heap s (accDataPoints s) @ new"
    with dw have "dropWhile (\<lambda>d. timestamp_ms d <
                            timestamp_ms (last (heap s (accDataPoints s) @ new)) - 60000)
               (heap s (accDataPoints s) @ new) = heap s (accDataPoints s) @ new"
      by simp
    from dropWhile_id_hd [OF this ne]
    have "withinWindow (heap s2 (accDataPoints s2))"
      by (simp add: withinWindow_def arr BUFFER_DURATION_MS_def not_less)
    then have "trimAccBuffer s2 = s2" by (rule trimAccBuffer_noop)
    then show "accDataPoints s' = accDataPoints s"
      by (simp add: s' trimPpgBuffer_frame refs)
  qed
  from n old dw iff show ?thesis
    by (intro exI [of _ new]) (simp add: deref_def getAccData_def)
qed

text \<open>The PPG buffer after a valid PPG packet, and when it is a new array.\<close>

lemma handleNotification_ppg_buffer:
  assumes c: "consistent s" and v: "0 < sampleCount dv"
    and t: "getUint8 dv 0 = Inr PACKET_TYPE_PPG" and h: "handleNotification now dv s = Inr s'"
  shows "\<exists>new. length new = nat (sampleCount dv) \<and>
           deref s' (getPpgData s) = deref s (getPpgData s) @ new \<and>
           deref s' (getPpgData s') =
             dropWhile (\<lambda>d. timestamp_ms d <
                            timestamp_ms (last (deref s (getPpgData s) @ new)) - 60000)
               (deref s (getPpgData s) @ new) \<and>
           ((getPpgData s' = getPpgData s) =
              (deref s' (getPpgData s') = deref s (getPpgData s) @ new))"
proof -
  have len: "3 \<le> byteLength dv" using valid_length [OF v] by simp
  obtain cn where cn: "getUint16 dv 1 True = Inr cn"
    using header_reads(2) [OF len] by blast
  define s1 where "s1 = genesisCheck now PACKET_TYPE_PPG s"
  define new where "new =
             map (\<lambda>j. \<lparr>timestamp_ms = rat_of_int (orZero (genesisTS s1 PACKET_TYPE_PPG)) +
                            rat_of_nat (cn * 5 + j) * PPG_SAMPLE_PERIOD_MS,
                       sample_value = projr (readSample dv (3 + j * 3)),
                       sample_type = PACKET_TYPE_PPG\<rparr>) [0..<nat (sampleCount dv)]"
  define rows where "rows =
             map (\<lambda>j. [Num (rat_of_int (orZero (genesisTS s1 PACKET_TYPE_PPG)) +
                            rat_of_nat (cn * 5 + j) * PPG_SAMPLE_PERIOD_MS),
                       Num (rat_of_int (projr (readSample dv (3 + j * 3))))])
               [0..<nat (sampleCount dv)]"
  define s2 where "s2 = s1\<lparr>csvRows := csvRows s1 @ rows,
           heap := (heap s1)(ppgDataPoints s1 := heap s1 (ppgDataPoints s1) @ new)\<rparr>"
  have loop: "sampleLoop dv PACKET_TYPE_PPG cn (sampleCount dv) 0 s1 = Inr s2"
    unfolding s2_def new_def rows_def by (rule sampleLoop_ppg [OF order_refl])
  have s': "s' = trimPpgBuffer (trimAccBuffer s2)"
    using h
    by (simp add: handleNotification_valid [OF v t cn] loop flip: s1_def)
  have refs: "ppgDataPoints s2 = ppgDataPoints s" "nextRef s2 = nextRef s"
    by (simp_all add: s2_def s1_def genesisCheck_frame)
  have lt: "ppgDataPoints s < nextRef s" using c by (simp add: consistent_def)
  have arr: "heap s2 (ppgDataPoints s2) = heap s (ppgDataPoints s) @ new"
    by (simp add: s2_def s1_def genesisCheck_frame)
  have n: "length new = nat (sampleCount dv)" by (simp add: new_def)
  then have ne: "heap s (ppgDataPoints s) @ new \<noteq> []" using v by auto
  have old: "heap s' (ppgDataPoints s) = heap s (ppgDataPoints s) @ new"
    unfolding s' using lt arr by (simp add: old_array_after_trims refs)
  have "heap s2 (accDataPoints s2) = heap s (accDataPoints s)"
    using c by (simp add: s2_def s1_def genesisCheck_frame consistent_def)
  then have "withinWindow (heap s2 (accDataPoints s2))"
    using c by (simp add: consistent_def)
  then have noop: "trimAccBuffer s2 = s2" by (rule trimAccBuffer_noop)
  have s'2: "s' = trimPpgBuffer s2" by (simp add: s' noop)
  have "heap s' (ppgDataPoints s') =
          dropWhile (\<lambda>d. timestamp_ms d <
                            timestamp_ms (last (heap s (ppgDataPoints s) @ new)) - 60000)
               (heap s (ppgDataPoints s) @ new)"
    using trimPpgBuffer_contents [of s2] ne
    by (simp add: deref_def getPpgData_def arr BUFFER_DURATION_MS_def s'2)
  then have dw: "heap s' (ppgDataPoints s') =
          dropWhile (\<lambda>d. timestamp_ms d <
                            timestamp_ms (last (heap s (ppgDataPoints s) @ new)) - 60000)
               (heap s (ppgDataPoints s) @ new)"
    by simp
  have iff: "(ppgDataPoints s' = ppgDataPoints s) =
               (heap s' (ppgDataPoints s') = heap s (ppgDataPoints s) @ new)"
  proof
    assume "ppgDataPoints s' = ppgDataPoints s"
    then show "heap s' (ppgDataPoints s') = heap s (ppgDataPoints s) @ new"
      using old by simp
  next
    assume "heap s' (ppgDataPoints s') = heap s (ppgDataPoints s) @ new"
    with dw have "dropWhile (\<lambda>d. timestamp_ms d <
                            timestamp_ms (last (heap s (ppgDataPoints s) @ new)) - 60000)
               (heap s (ppgDataPoints s) @ new) = heap s (ppgDataPoints s) @ new"
      by simp
    from dropWhile_id_hd [OF this ne]
    have "withinWindow (heap s2 (ppgDataPoints s2))"
      by (simp add: withinWindow_def arr BUFFER_DURATION_MS_def not_less)
    then have "trimPpgBuffer s2 = s2" by (rule trimPpgBuffer_noop)
    then show "ppgDataPoints s' = ppgDataPoints s"
      by (simp add: s'2 refs)
  qed
  from n old dw iff show ?thesis
    by (intro exI [of _ new]) (simp add: deref_def getPpgData_def)
qed

text \<open>
  Claim C9, as amended. \<open>getAccData\<close> and \<open>getPpgData\<close> return the collector's own array,
  not a copy. While that array is still the collector's buffer, a valid packet of its type
  shows in the snapshot as the old entries followed by all the entries the packet appended,
  untrimmed, and a push through the snapshot appends to the collector's buffer. The buffer
  after the packet is those entries cut at the window, and it is the same array exactly when
  nothing was cut: a trim that discards entries installs a new array and leaves the old one
  as it was. A snapshot that is no longer a buffer of the collector stays allocated, is
  changed by no notification, never becomes a buffer again, and a push through it does not
  reach the collector's buffers. Every array returned earlier in a run is of one of these
  two kinds.
\<close>

theorem snapshot_shares_array:
  "(reachable s \<and> 3 \<le> byteLength dv \<and> 1 \<le> sampleCount dv \<and>
    getUint8 dv 0 = Inr PACKET_TYPE_ACC \<longrightarrow>
      (\<exists>s' new. handleNotification now dv s = Inr s' \<and>
         length new = nat (sampleCount dv) \<and>
         deref s' (getAccData s) = deref s (getAccData s) @ new \<and>
         deref s' (getAccData s') =
           dropWhile (\<lambda>d. timestamp_ms d <
                          timestamp_ms (last (deref s (getAccData s) @ new)) - 60000)
             (deref s (getAccData s) @ new) \<and>
         ((getAccData s' = getAccData s) =
            (deref s' (getAccData s') = deref s (getAccData s) @ new))))
   \<and>
   (reachable s \<and> 3 \<le> byteLength dv \<and> 1 \<le> sampleCount dv \<and>
    getUint8 dv 0 = Inr PACKET_TYPE_PPG \<longrightarrow>
      (\<exists>s' new. handleNotification now dv s = Inr s' \<and>
         length new = nat (sampleCount dv) \<and>
         deref s' (getPpgData s) = deref s (getPpgData s) @ new \<and>
         deref s' (getPpgData s') =
           dropWhile (\<lambda>d. timestamp_ms d <
                          timestamp_ms (last (deref s (getPpgData s) @ new)) - 60000)
             (deref s (getPpgData s) @ new) \<and>
         ((getPpgData s' = getPpgData s) =
            (deref s' (getPpgData s') = deref s (getPpgData s) @ new))))
   \<and>
   (getAccData s < nextRef s \<longrightarrow>
      deref (trimAccBuffer s) (getAccData s) = deref s (getAccData s))
   \<and>
   (getPpgData s < nextRef s \<longrightarrow>
      deref (trimPpgBuffer s) (getPpgData s) = deref s (getPpgData s))
   \<and>
   deref (push (getAccData s) x s) (getAccData (push (getAccData s) x s)) =
     deref s (getAccData s) @ [x]
   \<and>
   deref (push (getPpgData s) x s) (getPpgData (push (getPpgData s) x s)) =
     deref s (getPpgData s) @ [x]
   \<and>
   (reachable s \<and> r < nextRef s \<and> r \<noteq> getAccData s \<and> r \<noteq> getPpgData s \<and>
    handleNotification now dv s = Inr s1 \<longrightarrow>
      deref s1 r = deref s r \<and>
      r < nextRef s1 \<and> r \<noteq> getAccData s1 \<and> r \<noteq> getPpgData s1)
   \<and>
   (r \<noteq> getAccData s \<longrightarrow>
      deref (push r x s) (getAccData (push r x s)) = deref s (getAccData s))
   \<and>
   (r \<noteq> getPpgData s \<longrightarrow>
      deref (push r x s) (getPpgData (push r x s)) = deref s (getPpgData s))
   \<and>
   (reachable s0 \<and> handleNotifications ns s0 = Inr s2 \<longrightarrow>
      reachable s2 \<and>
      getAccData s0 < nextRef s2 \<and> getAccData s0 \<noteq> getPpgData s2 \<and>
      getPpgData s0 < nextRef s2 \<and> getPpgData s0 \<noteq> getAccData s2)"
proof -
  have A: "(reachable s \<and> 3 \<le> byteLength dv \<and> 1 \<le> sampleCount dv \<and>
    getUint8 dv 0 = Inr PACKET_TYPE_ACC \<longrightarrow>
      (\<exists>s' new. handleNotification now dv s = Inr s' \<and>
         length new = nat (sampleCount dv) \<and>
         deref s' (getAccData s) = deref s (getAccData s) @ new \<and>
         deref s' (getAccData s') =
           dropWhile (\<lambda>d. timestamp_ms d <
                          timestamp_ms (last (deref s (getAccData s) @ new)) - 60000)
             (deref s (getAccData s) @ new) \<and>
         ((getAccData s' = getAccData s) =
            (deref s' (getAccData s') = deref s (getAccData s) @ new))))"
  proof (intro impI; elim conjE)
    assume a: "reachable s" "3 \<le> byteLength dv" "1 \<le> sampleCount dv"
      "getUint8 dv 0 = Inr PACKET_TYPE_ACC"
    obtain s' where h: "handleNotification now dv s = Inr s'"
      using handleNotification_total by blast
    have v: "0 < sampleCount dv" using a(3) by simp
    from handleNotification_acc_buffer [OF reachable_consistent [OF a(1)] v a(4) h] h
    show "\<exists>s' new. handleNotification now dv s = Inr s' \<and>
         length new = nat (sampleCount dv) \<and>
         deref s' (getAccData s) = deref s (getAccData s) @ new \<and>
         deref s' (getAccData s') =
           dropWhile (\<lambda>d. timestamp_ms d <
                          timestamp_ms (last (deref s (getAccData s) @ new)) - 60000)
             (deref s (getAccData s) @ new) \<and>
         ((getAccData s' = getAccData s) =
            (deref s' (getAccData s') = deref s (getAccData s) @ new))"
      by blast
  qed
  have B: "(reachable s \<and> 3 \<le> byteLength dv \<and> 1 \<le> sampleCount dv \<and>
    getUint8 dv 0 = Inr PACKET_TYPE_PPG \<longrightarrow>
      (\<exists>s' new. handleNotification now dv s = Inr s' \<and>
         length new = nat (sampleCount dv) \<and>
         deref s' (getPpgData s) = deref s (getPpgData s) @ new \<and>
         deref s' (getPpgData s') =
           dropWhile (\<lambda>d. timestamp_ms d <
                          timestamp_ms (last (deref s (getPpgData s) @ new)) - 60000)
             (deref s (getPpgData s) @ new) \<and>
         ((getPpgData s' = getPpgData s) =
            (deref s' (getPpgData s') = deref s (getPpgData s) @ new))))"
  proof (intro impI; elim conjE)
    assume a: "reachable s" "3 \<le> byteLength dv" "1 \<le> sampleCount dv"
      "getUint8 dv 0 = Inr PACKET_TYPE_PPG"
    obtain s' where h: "handleNotification now dv s = Inr s'"
      using handleNotification_total by blast
    have v: "0 < sampleCount dv" using a(3) by simp
    from handleNotification_ppg_buffer [OF reachable_consistent [OF a(1)] v a(4) h] h
    show "\<exists>s' new. handleNotification now dv s = Inr s' \<and>
         length new = nat (sampleCount dv) \<and>
         deref s' (getPpgData s) = deref s (getPpgData s) @ new \<and>
         deref s' (getPpgData s') =
           dropWhile (\<lambda>d. timestamp_ms d <
                          timestamp_ms (last (deref s (getPpgData s) @ new)) - 60000)
             (deref s (getPpgData s) @ new) \<and>
         ((getPpgData s' = getPpgData s) =
            (deref s' (getPpgData s') = deref s (getPpgData s) @ new))"
      by blast
  qed
  have C: "(getAccData s < nextRef s \<longrightarrow>
      deref (trimAccBuffer s) (getAccData s) = deref s (getAccData s))"
    by (simp add: deref_def getAccData_def trim_keeps_old_array)
  have D: "(getPpgData s < nextRef s \<longrightarrow>
      deref (trimPpgBuffer s) (getPpgData s) = deref s (getPpgData s))"
    by (simp add: deref_def getPpgData_def trim_keeps_old_array)
  have E: "deref (push (getAccData s) x s) (getAccData (push (getAccData s) x s)) =
     deref s (getAccData s) @ [x]"
    by (simp add: deref_def getAccData_def push_def)
  have F: "deref (push (getPpgData s) x s) (getPpgData (push (getPpgData s) x s)) =
     deref s (getPpgData s) @ [x]"
    by (simp add: deref_def getPpgData_def push_def)
  have G: "(reachable s \<and> r < nextRef s \<and> r \<noteq> getAccData s \<and> r \<noteq> getPpgData s \<and>
    handleNotification now dv s = Inr s1 \<longrightarrow>
      deref s1 r = deref s r \<and>
      r < nextRef s1 \<and> r \<noteq> getAccData s1 \<and> r \<noteq> getPpgData s1)"
  proof (intro impI; elim conjE)
    assume a: "reachable s" "r < nextRef s" "r \<noteq> getAccData s" "r \<noteq> getPpgData s"
      "handleNotification now dv s = Inr s1"
    have r: "r \<noteq> accDataPoints s" "r \<noteq> ppgDataPoints s"
      using a(3,4) by (simp_all add: getAccData_def getPpgData_def)
    have "heap s1 r = heap s r" by (rule handleNotification_stale [OF a(2) r a(5)])
    moreover have "r < nextRef s1" using handleNotification_nextRef [OF a(5)] a(2) by simp
    moreover have "r \<noteq> accDataPoints s1" "r \<noteq> ppgDataPoints s1"
      using handleNotification_refs [OF reachable_consistent [OF a(1)] a(5)] r a(2) by auto
    ultimately show "deref s1 r = deref s r \<and>
      r < nextRef s1 \<and> r \<noteq> getAccData s1 \<and> r \<noteq> getPpgData s1"
      by (simp add: deref_def getAccData_def getPpgData_def)
  qed
  have H1: "(r \<noteq> getAccData s \<longrightarrow>
      deref (push r x s) (getAccData (push r x s)) = deref s (getAccData s))"
    by (simp add: deref_def getAccData_def push_def)
  have H2: "(r \<noteq> getPpgData s \<longrightarrow>
      deref (push r x s) (getPpgData (push r x s)) = deref s (getPpgData s))"
    by (simp add: deref_def getPpgData_def push_def)
  have I: "(reachable s0 \<and> handleNotifications ns s0 = Inr s2 \<longrightarrow>
      reachable s2 \<and>
      getAccData s0 < nextRef s2 \<and> getAccData s0 \<noteq> getPpgData s2 \<and>
      getPpgData s0 < nextRef s2 \<and> getPpgData s0 \<noteq> getAccData s2)"
  proof (intro impI; elim conjE)
    assume a: "reachable s0" "handleNotifications ns s0 = Inr s2"
    have c: "accDataPoints s0 \<noteq> ppgDataPoints s0" "accDataPoints s0 < nextRef s0"
      "ppgDataPoints s0 < nextRef s0"
      using reachable_consistent [OF a(1)] by (simp_all add: consistent_def)
    from run_keeps_refs [OF a c(2) c(1)] run_keeps_refs' [OF a c(3) c(1) [symmetric]]
    show "reachable s2 \<and>
      getAccData s0 < nextRef s2 \<and> getAccData s0 \<noteq> getPpgData s2 \<and>
      getPpgData s0 < nextRef s2 \<and> getPpgData s0 \<noteq> getAccData s2"
      by (simp add: getAccData_def getPpgData_def)
  qed
  from A B C D E F G H1 H2 I show ?thesis by (intro conjI)
qed

lemma acc_packet_points:
  assumes "consistent s" "0 < sampleCount dv" "getUint8 dv 0 = Inr PACKET_TYPE_ACC"
    and "getUint16 dv 1 True = Inr c" "handleNotification now dv s = Inr s'"
    and "genesisTS s' PACKET_TYPE_ACC = Some g"
  shows "deref s' (getAccData s) = deref s (getAccData s) @
           map (\<lambda>i. \<lparr>timestamp_ms = rat_of_int g + rat_of_nat (c * 5 + i) * 16,
                     sample_value = projr (readSample dv (3 + i * 3)),
                     sample_type = PACKET_TYPE_ACC\<rparr>)
             [0..<nat (sampleCount dv)]"
proof -
  have "accDataPoints s < nextRef s" using assms(1) by (simp add: consistent_def)
  with handleNotification_acc [OF assms(2,3,4), of now s] assms(5,6) show ?thesis by auto
qed

theorem snapshot_shares_array_witness:
  "(let dv = [1, 0, 0, 5, 0, 0, 6, 0, 0];
        s' = projr (handleNotification 1000 dv newCollector);
        x = \<lparr>timestamp_ms = 0, sample_value = 0, sample_type = 0\<rparr>
    in reachable newCollector \<and> 3 \<le> byteLength dv \<and> 1 \<le> sampleCount dv \<and>
       getUint8 dv 0 = Inr PACKET_TYPE_ACC \<and>
       getAccData newCollector < nextRef newCollector \<and>
       deref newCollector (getAccData newCollector) = [] \<and>
       length (deref s' (getAccData newCollector)) = 2 \<and>
       deref (trimAccBuffer newCollector) (getAccData newCollector) = [] \<and>
       deref (push (getAccData newCollector) x newCollector)
         (getAccData (push (getAccData newCollector) x newCollector)) = [x])
   \<and>
   (let dv = [2, 0, 0, 7, 0, 0];
        s' = projr (handleNotification 1000 dv newCollector)
    in 3 \<le> byteLength dv \<and> 1 \<le> sampleCount dv \<and> getUint8 dv 0 = Inr PACKET_TYPE_PPG \<and>
       getPpgData newCollector < nextRef newCollector \<and>
       length (deref s' (getPpgData newCollector)) = 1 \<and>
       deref (trimPpgBuffer newCollector) (getPpgData newCollector) = [])
   \<and>
   (let s = newCollector\<lparr>heap := (\<lambda>_. [])
              (0 := [\<lparr>timestamp_ms = 1000, sample_value = 5, sample_type = 1\<rparr>,
                     \<lparr>timestamp_ms = 61016, sample_value = 7, sample_type = 1\<rparr>])\<rparr>
    in getAccData s < nextRef s \<and>
       map timestamp_ms (deref (trimAccBuffer s) (getAccData s)) = [1000, 61016] \<and>
       map timestamp_ms (deref (trimAccBuffer s) (getAccData (trimAccBuffer s))) = [61016])
   \<and>
   (let pk1 = [1, 0, 0, 5, 0, 0]; pk2 = [1, 232, 3, 6, 0, 0]; pk3 = [1, 233, 3, 7, 0, 0];
        s1 = projr (handleNotification 1000 pk1 newCollector);
        s2 = projr (handleNotification 1000 pk2 s1);
        s3 = projr (handleNotification 1000 pk3 s2);
        r = getAccData s1;
        x = \<lparr>timestamp_ms = 0, sample_value = 0, sample_type = 0\<rparr>
    in reachable s1 \<and> reachable s2 \<and>
       handleNotifications [(1000, pk2)] s1 = Inr s2 \<and>
       handleNotification 1000 pk3 s2 = Inr s3 \<and>
       map timestamp_ms (deref s1 r) = [1000] \<and>
       map timestamp_ms (deref s2 r) = [1000, 81000] \<and>
       map timestamp_ms (deref s2 (getAccData s2)) = [81000] \<and>
       r < nextRef s2 \<and> r \<noteq> getAccData s2 \<and> r \<noteq> getPpgData s2 \<and>
       map timestamp_ms (deref s3 r) = [1000, 81000] \<and>
       map timestamp_ms (deref s3 (getAccData s3)) = [81000, 81080] \<and>
       r \<noteq> getAccData s3 \<and>
       map timestamp_ms (deref (push r x s3) (getAccData (push r x s3))) = [81000, 81080] \<and>
       r \<noteq> getPpgData s3 \<and>
       deref (push r x s3) (getPpgData (push r x s3)) = deref s3 (getPpgData s3))"
proof -
  have old: "(let dv = [1, 0, 0, 5, 0, 0, 6, 0, 0];
        s' = projr (handleNotification 1000 dv newCollector);
        x = \<lparr>timestamp_ms = 0, sample_value = 0, sample_type = 0\<rparr>
    in reachable newCollector \<and> 3 \<le> byteLength dv \<and> 1 \<le> sampleCount dv \<and>
       getUint8 dv 0 = Inr PACKET_TYPE_ACC \<and>
       getAccData newCollector < nextRef newCollector \<and>
       deref newCollector (getAccData newCollector) = [] \<and>
       length (deref s' (getAccData newCollector)) = 2 \<and>
       deref (trimAccBuffer newCollector) (getAccData newCollector) = [] \<and>
       deref (push (getAccData newCollector) x newCollector)
         (getAccData (push (getAccData newCollector) x newCollector)) = [x])
   \<and>
   (let dv = [2, 0, 0, 7, 0, 0];
        s' = projr (handleNotification 1000 dv newCollector)
    in 3 \<le> byteLength dv \<and> 1 \<le> sampleCount dv \<and> getUint8 dv 0 = Inr PACKET_TYPE_PPG \<and>
       getPpgData newCollector < nextRef newCollector \<and>
       length (deref s' (getPpgData newCollector)) = 1 \<and>
       deref (trimPpgBuffer newCollector) (getPpgData newCollector) = [])
   \<and>
   (let s = newCollector\<lparr>heap := (\<lambda>_. [])
              (0 := [\<lparr>timestamp_ms = 1000, sample_value = 5, sample_type = 1\<rparr>,
                     \<lparr>timestamp_ms = 61016, sample_value = 7, sample_type = 1\<rparr>])\<rparr>
    in getAccData s < nextRef s \<and>
       map timestamp_ms (deref (trimAccBuffer s) (getAccData s)) = [1000, 61016] \<and>
       map timestamp_ms (deref (trimAccBuffer s) (getAccData (trimAccBuffer s))) = [61016])"
  proof (intro conjI)
    define dv :: DataView where "dv = [2, 0, 0, 7, 0, 0]"
    obtain s' where h: "handleNotification 1000 dv newCollector = Inr s'"
      using handleNotification_total by blast
    have v: "3 \<le> byteLength dv" "1 \<le> sampleCount dv" "getUint8 dv 0 = Inr PACKET_TYPE_PPG"
      "nat (sampleCount dv) = 1"
      by (simp_all add: dv_def sampleCount_def getUint8_def byteLength_def PACKET_TYPE_PPG_def)
    have e: "deref newCollector (getPpgData newCollector) = []"
      "getPpgData newCollector < nextRef newCollector"
      by (simp_all add: deref_def getPpgData_def newCollector_def)
    from snapshot_shares_array [where s = newCollector and dv = dv and now = 1000, THEN conjunct2, THEN conjunct1]
      reachable.constructed v(1,2,3)
    have "\<exists>s' new. handleNotification 1000 dv newCollector = Inr s' \<and>
       length new = nat (sampleCount dv) \<and>
       deref s' (getPpgData newCollector) = deref newCollector (getPpgData newCollector) @ new"
      by blast
    then obtain s'' new where k: "handleNotification 1000 dv newCollector = Inr s''"
      "length new = nat (sampleCount dv)"
      "deref s'' (getPpgData newCollector) = deref newCollector (getPpgData newCollector) @ new"
      by blast
    have "s'' = s'" using k(1) h by simp
    note k' = k(2,3) [unfolded this]
    have l: "length (deref s' (getPpgData newCollector)) = 1"
      using k' by (simp add: e v(4))
    from snapshot_shares_array [where s = newCollector, THEN conjunct2, THEN conjunct2, THEN conjunct2, THEN conjunct1] e
    have tr: "deref (trimPpgBuffer newCollector) (getPpgData newCollector) = []"
      by simp
    from v e l tr show "(let dv = [2, 0, 0, 7, 0, 0];
          s' = projr (handleNotification 1000 dv newCollector)
      in 3 \<le> byteLength dv \<and> 1 \<le> sampleCount dv \<and> getUint8 dv 0 = Inr PACKET_TYPE_PPG \<and>
         getPpgData newCollector < nextRef newCollector \<and>
         length (deref s' (getPpgData newCollector)) = 1 \<and>
         deref (trimPpgBuffer newCollector) (getPpgData newCollector) = [])"
      unfolding Let_def by (simp add: h flip: dv_def)
  next
    define s where "s = newCollector\<lparr>heap := (\<lambda>_. [])
                (0 := [\<lparr>timestamp_ms = 1000, sample_value = 5, sample_type = 1\<rparr>,
                       \<lparr>timestamp_ms = 61016, sample_value = 7, sample_type = 1\<rparr>])\<rparr>"
    have a: "deref s (getAccData s) =
               [\<lparr>timestamp_ms = 1000, sample_value = 5, sample_type = 1\<rparr>,
                \<lparr>timestamp_ms = 61016, sample_value = 7, sample_type = 1\<rparr>]"
      "getAccData s < nextRef s"
      by (simp_all add: s_def newCollector_def deref_def getAccData_def)
    from snapshot_shares_array [where s = s, THEN conjunct2, THEN conjunct2, THEN conjunct1] a
    have "map timestamp_ms (deref (trimAccBuffer s) (getAccData s)) = [1000, 61016]"
      by simp
    moreover have "map timestamp_ms (deref (trimAccBuffer s) (getAccData (trimAccBuffer s)))
                     = [61016]"
      by (simp add: trimAccBuffer_contents a BUFFER_DURATION_MS_def)
    ultimately show "(let s = newCollector\<lparr>heap := (\<lambda>_. [])
                (0 := [\<lparr>timestamp_ms = 1000, sample_value = 5, sample_type = 1\<rparr>,
                       \<lparr>timestamp_ms = 61016, sample_value = 7, sample_type = 1\<rparr>])\<rparr>
      in getAccData s < nextRef s \<and>
         map timestamp_ms (deref (trimAccBuffer s) (getAccData s)) = [1000, 61016] \<and>
         map timestamp_ms (deref (trimAccBuffer s) (getAccData (trimAccBuffer s))) = [61016])"
      using a(2) unfolding Let_def s_def by blast
  next
    show "(let dv = [1, 0, 0, 5, 0, 0, 6, 0, 0];
          s' = projr (handleNotification 1000 dv newCollector);
          x = \<lparr>timestamp_ms = 0, sample_value = 0, sample_type = 0\<rparr>
      in reachable newCollector \<and> 3 \<le> byteLength dv \<and> 1 \<le> sampleCount dv \<and>
         getUint8 dv 0 = Inr PACKET_TYPE_ACC \<and>
         getAccData newCollector < nextRef newCollector \<and>
         deref newCollector (getAccData newCollector) = [] \<and>
         length (deref s' (getAccData newCollector)) = 2 \<and>
         deref (trimAccBuffer newCollector) (getAccData newCollector) = [] \<and>
         deref (push (getAccData newCollector) x newCollector)
           (getAccData (push (getAccData newCollector) x newCollector)) = [x])"
    proof -
      define dv :: DataView where "dv = [1, 0, 0, 5, 0, 0, 6, 0, 0]"
      define x where "x = \<lparr>timestamp_ms = 0, sample_value = 0, sample_type = 0\<rparr>"
      obtain s' where h: "handleNotification 1000 dv newCollector = Inr s'"
        using handleNotification_total by blast
      have v: "3 \<le> byteLength dv" "1 \<le> sampleCount dv" "getUint8 dv 0 = Inr PACKET_TYPE_ACC"
        "nat (sampleCount dv) = 2"
        by (simp_all add: dv_def sampleCount_def getUint8_def byteLength_def PACKET_TYPE_ACC_def)
      have e: "deref newCollector (getAccData newCollector) = []"
        "getAccData newCollector < nextRef newCollector"
        by (simp_all add: deref_def getAccData_def newCollector_def)
      from snapshot_shares_array [where s = newCollector and dv = dv and now = 1000, THEN conjunct1]
        reachable.constructed v(1,2,3)
      have "\<exists>s' new. handleNotification 1000 dv newCollector = Inr s' \<and>
         length new = nat (sampleCount dv) \<and>
         deref s' (getAccData newCollector) = deref newCollector (getAccData newCollector) @ new"
        by blast
      then obtain s'' new where k: "handleNotification 1000 dv newCollector = Inr s''"
        "length new = nat (sampleCount dv)"
        "deref s'' (getAccData newCollector) = deref newCollector (getAccData newCollector) @ new"
        by blast
      have "s'' = s'" using k(1) h by simp
      note k' = k(2,3) [unfolded this]
      have l: "length (deref s' (getAccData newCollector)) = 2"
        using k' by (simp add: e v(4))
      from snapshot_shares_array [where s = newCollector, THEN conjunct2, THEN conjunct2, THEN conjunct1] e
      have tr: "deref (trimAccBuffer newCollector) (getAccData newCollector) = []"
        by simp
      from snapshot_shares_array [where s = newCollector and x = x, THEN conjunct2, THEN conjunct2, THEN conjunct2, THEN conjunct2, THEN conjunct1] e
      have p: "deref (push (getAccData newCollector) x newCollector)
             (getAccData (push (getAccData newCollector) x newCollector)) = [x]"
        by simp
      from v e l tr p reachable.constructed show ?thesis
        unfolding Let_def by (simp add: h flip: dv_def x_def)
    qed
  qed
  have new: "(let pk1 = [1, 0, 0, 5, 0, 0]; pk2 = [1, 232, 3, 6, 0, 0]; pk3 = [1, 233, 3, 7, 0, 0];
        s1 = projr (handleNotification 1000 pk1 newCollector);
        s2 = projr (handleNotification 1000 pk2 s1);
        s3 = projr (handleNotification 1000 pk3 s2);
        r = getAccData s1;
        x = \<lparr>timestamp_ms = 0, sample_value = 0, sample_type = 0\<rparr>
    in reachable s1 \<and> reachable s2 \<and>
       handleNotifications [(1000, pk2)] s1 = Inr s2 \<and>
       handleNotification 1000 pk3 s2 = Inr s3 \<and>
       map timestamp_ms (deref s1 r) = [1000] \<and>
       map timestamp_ms (deref s2 r) = [1000, 81000] \<and>
       map timestamp_ms (deref s2 (getAccData s2)) = [81000] \<and>
       r < nextRef s2 \<and> r \<noteq> getAccData s2 \<and> r \<noteq> getPpgData s2 \<and>
       map timestamp_ms (deref s3 r) = [1000, 81000] \<and>
       map timestamp_ms (deref s3 (getAccData s3)) = [81000, 81080] \<and>
       r \<noteq> getAccData s3 \<and>
       map timestamp_ms (deref (push r x s3) (getAccData (push r x s3))) = [81000, 81080] \<and>
       r \<noteq> getPpgData s3 \<and>
       deref (push r x s3) (getPpgData (push r x s3)) = deref s3 (getPpgData s3))"
  proof -
    define pk1 :: DataView where "pk1 = [1, 0, 0, 5, 0, 0]"
    define pk2 :: DataView where "pk2 = [1, 232, 3, 6, 0, 0]"
    define pk3 :: DataView where "pk3 = [1, 233, 3, 7, 0, 0]"
    define x where "x = \<lparr>timestamp_ms = 0, sample_value = 0, sample_type = 0\<rparr>"
    obtain s1 where h1: "handleNotification 1000 pk1 newCollector = Inr s1"
      using handleNotification_total by blast
    obtain s2 where h2: "handleNotification 1000 pk2 s1 = Inr s2"
      using handleNotification_total by blast
    obtain s3 where h3: "handleNotification 1000 pk3 s2 = Inr s3"
      using handleNotification_total by blast
    define r where "r = getAccData s1"
    have v1: "0 < sampleCount pk1" "getUint8 pk1 0 = Inr PACKET_TYPE_ACC"
      "getUint16 pk1 1 True = Inr 0" "3 \<le> byteLength pk1" "1 \<le> sampleCount pk1"
      "[0..<nat (sampleCount pk1)] = [0]"
      by (simp_all add: pk1_def sampleCount_def getUint8_def getUint16_def byteLength_def
          PACKET_TYPE_ACC_def)
    have w1: "readSample pk1 3 = Inr 5"
      using readSample_in_range [of 3 pk1] by (simp add: pk1_def byteLength_def)
    have v2: "0 < sampleCount pk2" "getUint8 pk2 0 = Inr PACKET_TYPE_ACC"
      "getUint16 pk2 1 True = Inr 1000" "3 \<le> byteLength pk2" "1 \<le> sampleCount pk2"
      "[0..<nat (sampleCount pk2)] = [0]"
      by (simp_all add: pk2_def sampleCount_def getUint8_def getUint16_def byteLength_def
          PACKET_TYPE_ACC_def)
    have w2: "readSample pk2 3 = Inr 6"
      using readSample_in_range [of 3 pk2] by (simp add: pk2_def byteLength_def)
    have v3: "0 < sampleCount pk3" "getUint8 pk3 0 = Inr PACKET_TYPE_ACC"
      "getUint16 pk3 1 True = Inr 1001" "3 \<le> byteLength pk3" "1 \<le> sampleCount pk3"
      "[0..<nat (sampleCount pk3)] = [0]"
      by (simp_all add: pk3_def sampleCount_def getUint8_def getUint16_def byteLength_def
          PACKET_TYPE_ACC_def)
    have w3: "readSample pk3 3 = Inr 7"
      using readSample_in_range [of 3 pk3] by (simp add: pk3_def byteLength_def)
    have r0: "reachable newCollector" by (rule reachable.constructed)
    have r1: "reachable s1" using reachable.notified [OF r0 h1] .
    have r2: "reachable s2" using reachable.notified [OF r1 h2] .
    have g1: "genesisTS s1 PACKET_TYPE_ACC = Some 1000"
      using handleNotification_genesis_step [OF h1, of PACKET_TYPE_ACC] v1
      by (simp add: newCollector_def falsy_def)
    have g2: "genesisTS s2 PACKET_TYPE_ACC = Some 1000"
      using handleNotification_genesis_step [OF h2, of PACKET_TYPE_ACC] g1
      by (simp add: falsy_def)
    have g3: "genesisTS s3 PACKET_TYPE_ACC = Some 1000"
      using handleNotification_genesis_step [OF h3, of PACKET_TYPE_ACC] g2
      by (simp add: falsy_def)
    have e0: "deref newCollector (getAccData newCollector) = []"
      by (simp add: deref_def getAccData_def newCollector_def)
    have e1: "deref s1 (getAccData newCollector) = [\<lparr>timestamp_ms = 1000, sample_value = 5, sample_type = PACKET_TYPE_ACC\<rparr>]"
      using acc_packet_points [OF reachable_consistent [OF r0] v1(1,2,3) h1 g1]
      by (simp add: e0 v1 w1)
    have e2: "deref s2 (getAccData s1) = deref s1 (getAccData s1) @ [\<lparr>timestamp_ms = 81000, sample_value = 6, sample_type = PACKET_TYPE_ACC\<rparr>]"
      using acc_packet_points [OF reachable_consistent [OF r1] v2(1,2,3) h2 g2]
      by (simp add: v2 w2)
    have e3: "deref s3 (getAccData s2) = deref s2 (getAccData s2) @ [\<lparr>timestamp_ms = 81080, sample_value = 7, sample_type = PACKET_TYPE_ACC\<rparr>]"
      using acc_packet_points [OF reachable_consistent [OF r2] v3(1,2,3) h3 g3]
      by (simp add: v3 w3)
    have "\<exists>s' new. handleNotification 1000 pk1 newCollector = Inr s' \<and>
         length new = nat (sampleCount pk1) \<and>
         deref s' (getAccData newCollector) = deref newCollector (getAccData newCollector) @ new \<and>
         deref s' (getAccData s') =
           dropWhile (\<lambda>d. timestamp_ms d <
                          timestamp_ms (last (deref newCollector (getAccData newCollector) @ new)) - 60000)
             (deref newCollector (getAccData newCollector) @ new) \<and>
         ((getAccData s' = getAccData newCollector) =
            (deref s' (getAccData s') = deref newCollector (getAccData newCollector) @ new))"
      using snapshot_shares_array [where s = newCollector and dv = pk1 and now = 1000, THEN conjunct1]
        r0 v1(4) v1(5) v1(2) by blast
    then obtain s' new1 where k1: "handleNotification 1000 pk1 newCollector = Inr s'"
      "deref s' (getAccData newCollector) = deref newCollector (getAccData newCollector) @ new1"
      "deref s' (getAccData s') =
           dropWhile (\<lambda>d. timestamp_ms d <
                          timestamp_ms (last (deref newCollector (getAccData newCollector) @ new1)) - 60000)
             (deref newCollector (getAccData newCollector) @ new1)"
      "(getAccData s' = getAccData newCollector) =
            (deref s' (getAccData s') = deref newCollector (getAccData newCollector) @ new1)"
      by blast
    have "s' = s1" using k1(1) h1 by simp
    note n1 = k1(2,3,4) [unfolded this]
    have "new1 = [\<lparr>timestamp_ms = 1000, sample_value = 5, sample_type = PACKET_TYPE_ACC\<rparr>]" using n1(1) e1 by (simp add: e0)
    then have d1: "deref s1 (getAccData s1) = [\<lparr>timestamp_ms = 1000, sample_value = 5, sample_type = PACKET_TYPE_ACC\<rparr>]"
      using n1(2) by (simp add: e0)
    have "\<exists>s' new. handleNotification 1000 pk2 s1 = Inr s' \<and>
         length new = nat (sampleCount pk2) \<and>
         deref s' (getAccData s1) = deref s1 (getAccData s1) @ new \<and>
         deref s' (getAccData s') =
           dropWhile (\<lambda>d. timestamp_ms d <
                          timestamp_ms (last (deref s1 (getAccData s1) @ new)) - 60000)
             (deref s1 (getAccData s1) @ new) \<and>
         ((getAccData s' = getAccData s1) =
            (deref s' (getAccData s') = deref s1 (getAccData s1) @ new))"
      using snapshot_shares_array [where s = s1 and dv = pk2 and now = 1000, THEN conjunct1]
        r1 v2(4) v2(5) v2(2) by blast
    then obtain s' new2 where k2: "handleNotification 1000 pk2 s1 = Inr s'"
      "deref s' (getAccData s1) = deref s1 (getAccData s1) @ new2"
      "deref s' (getAccData s') =
           dropWhile (\<lambda>d. timestamp_ms d <
                          timestamp_ms (last (deref s1 (getAccData s1) @ new2)) - 60000)
             (deref s1 (getAccData s1) @ new2)"
      "(getAccData s' = getAccData s1) =
            (deref s' (getAccData s') = deref s1 (getAccData s1) @ new2)"
      by blast
    have "s' = s2" using k2(1) h2 by simp
    note n2 = k2(2,3,4) [unfolded this]
    have new2: "new2 = [\<lparr>timestamp_ms = 81000, sample_value = 6, sample_type = PACKET_TYPE_ACC\<rparr>]" using n2(1) e2 by simp
    have d2: "deref s2 (getAccData s2) = [\<lparr>timestamp_ms = 81000, sample_value = 6, sample_type = PACKET_TYPE_ACC\<rparr>]"
      using n2(2) by (simp add: new2 d1)
    have x2: "getAccData s2 \<noteq> getAccData s1"
      using n2(3) by (simp add: new2 d1 d2)
    have h2': "handleNotifications [(1000, pk2)] s1 = Inr s2" by (simp add: h2)
    have st: "r < nextRef s2" "r \<noteq> getPpgData s2"
      using snapshot_shares_array [where ?s0.0 = s1 and ns = "[(1000, pk2)]" and ?s2.0 = s2,
          THEN conjunct2, THEN conjunct2, THEN conjunct2, THEN conjunct2, THEN conjunct2,
          THEN conjunct2, THEN conjunct2, THEN conjunct2, THEN conjunct2] r1 h2'
      by (simp_all add: r_def)
    have rs2: "r \<noteq> getAccData s2" using x2 by (simp add: r_def)
    have f3: "deref s3 r = deref s2 r" "r \<noteq> getAccData s3" "r \<noteq> getPpgData s3"
      using snapshot_shares_array [where s = s2 and dv = pk3 and now = 1000 and r = r and ?s1.0 = s3,
          THEN conjunct2, THEN conjunct2, THEN conjunct2, THEN conjunct2, THEN conjunct2,
          THEN conjunct2, THEN conjunct1] r2 st rs2 h3
      by simp_all
    have "\<exists>s' new. handleNotification 1000 pk3 s2 = Inr s' \<and>
         length new = nat (sampleCount pk3) \<and>
         deref s' (getAccData s2) = deref s2 (getAccData s2) @ new \<and>
         deref s' (getAccData s') =
           dropWhile (\<lambda>d. timestamp_ms d <
                          timestamp_ms (last (deref s2 (getAccData s2) @ new)) - 60000)
             (deref s2 (getAccData s2) @ new) \<and>
         ((getAccData s' = getAccData s2) =
            (deref s' (getAccData s') = deref s2 (getAccData s2) @ new))"
      using snapshot_shares_array [where s = s2 and dv = pk3 and now = 1000, THEN conjunct1]
        r2 v3(4) v3(5) v3(2) by blast
    then obtain s' new3 where k3: "handleNotification 1000 pk3 s2 = Inr s'"
      "deref s' (getAccData s2) = deref s2 (getAccData s2) @ new3"
      "deref s' (getAccData s') =
           dropWhile (\<lambda>d. timestamp_ms d <
                          timestamp_ms (last (deref s2 (getAccData s2) @ new3)) - 60000)
             (deref s2 (getAccData s2) @ new3)"
      "(getAccData s' = getAccData s2) =
            (deref s' (getAccData s') = deref s2 (getAccData s2) @ new3)"
      by blast
    have "s' = s3" using k3(1) h3 by simp
    note n3 = k3(2,3,4) [unfolded this]
    have new3: "new3 = [\<lparr>timestamp_ms = 81080, sample_value = 7, sample_type = PACKET_TYPE_ACC\<rparr>]" using n3(1) e3 by simp
    have d3: "deref s3 (getAccData s3) = [\<lparr>timestamp_ms = 81000, sample_value = 6, sample_type = PACKET_TYPE_ACC\<rparr>, \<lparr>timestamp_ms = 81080, sample_value = 7, sample_type = PACKET_TYPE_ACC\<rparr>]"
      using n3(2) by (simp add: new3 d2)
    have p3: "deref (push r x s3) (getAccData (push r x s3)) = deref s3 (getAccData s3)"
      using snapshot_shares_array [where s = s3 and r = r and x = x,
          THEN conjunct2, THEN conjunct2, THEN conjunct2, THEN conjunct2, THEN conjunct2,
          THEN conjunct2, THEN conjunct2, THEN conjunct1] f3(2)
      by simp
    have q3: "deref (push r x s3) (getPpgData (push r x s3)) = deref s3 (getPpgData s3)"
      using snapshot_shares_array [where s = s3 and r = r and x = x,
          THEN conjunct2, THEN conjunct2, THEN conjunct2, THEN conjunct2, THEN conjunct2, THEN conjunct2, THEN conjunct2, THEN conjunct2, THEN conjunct1] f3(3)
      by simp
    have a1: "map timestamp_ms (deref s1 r) = [1000]" by (simp add: r_def d1)
    have a2: "map timestamp_ms (deref s2 r) = [1000, 81000]" by (simp add: r_def e2 d1)
    have a3: "map timestamp_ms (deref s2 (getAccData s2)) = [81000]" by (simp add: d2)
    have a4: "map timestamp_ms (deref s3 r) = [1000, 81000]" by (simp add: f3(1) a2)
    have a5: "map timestamp_ms (deref s3 (getAccData s3)) = [81000, 81080]" by (simp add: d3)
    have a6: "map timestamp_ms (deref (push r x s3) (getAccData (push r x s3))) = [81000, 81080]"
      by (simp add: p3 a5)
    from r1 r2 h2' h3 a1 a2 a3 st rs2 a4 a5 f3(2) a6 f3(3) q3 show ?thesis
      unfolding Let_def by (simp add: h1 h2 flip: pk1_def pk2_def pk3_def x_def r_def)
  qed
  from old [THEN conjunct1] old [THEN conjunct2, THEN conjunct1]
    old [THEN conjunct2, THEN conjunct2] new
  show ?thesis by (intro conjI)
qed

text \<open>
  Claim C9 as stated fails: the snapshot of the empty ACC buffer of a new collector holds,
  after the next ACC packet, the data point of that packet; and a push through the snapshot
  puts the pushed entry into the collector's buffer.
\<close>

theorem snapshot_not_a_copy_counterexample:
  "deref newCollector (getAccData newCollector) = [] \<and>
   deref (projr (handleNotification 1000 [1, 0, 0, 5, 0, 0] newCollector))
     (getAccData newCollector) =
     [\<lparr>timestamp_ms = 1000, sample_value = 5, sample_type = 1\<rparr>] \<and>
   deref (push (getAccData newCollector)
            \<lparr>timestamp_ms = 0, sample_value = 0, sample_type = 0\<rparr> newCollector)
     (accDataPoints (push (getAccData newCollector)
            \<lparr>timestamp_ms = 0, sample_value = 0, sample_type = 0\<rparr> newCollector)) =
     [\<lparr>timestamp_ms = 0, sample_value = 0, sample_type = 0\<rparr>]"
proof -
  let ?dv = "[1, 0, 0, 5, 0, 0] :: DataView"
  obtain s' where h: "handleNotification 1000 ?dv newCollector = Inr s'"
    using handleNotification_total by blast
  have n: "sampleCount ?dv = 1" by (simp add: sampleCount_def byteLength_def)
  have v: "0 < sampleCount ?dv" "getUint8 ?dv 0 = Inr PACKET_TYPE_ACC"
    "getUint16 ?dv 1 True = Inr 0"
    by (simp_all add: n getUint8_def getUint16_def byteLength_def PACKET_TYPE_ACC_def)
  have g: "genesisTS s' PACKET_TYPE_ACC = Some 1000"
    using handleNotification_genesis_step [OF h, of PACKET_TYPE_ACC] v
    by (simp add: n byteLength_def newCollector_def falsy_def)
  have r: "accDataPoints newCollector < nextRef newCollector"
    by (simp add: newCollector_def)
  from handleNotification_acc [OF v, of 1000 newCollector] h g r
  have "deref s' (getAccData newCollector) = deref newCollector (getAccData newCollector) @
          map (\<lambda>i. \<lparr>timestamp_ms = rat_of_int 1000 + rat_of_nat (0 * 5 + i) * 16,
                    sample_value = projr (readSample ?dv (3 + i * 3)),
                    sample_type = PACKET_TYPE_ACC\<rparr>)
            [0..<nat (sampleCount ?dv)]"
    by auto
  moreover have "readSample ?dv 3 = Inr 5"
    by (simp add: readSample_in_range byteLength_def)
  moreover have "deref newCollector (getAccData newCollector) = []"
    by (simp add: deref_def getAccData_def newCollector_def)
  ultimately have "deref s' (getAccData newCollector) =
      [\<lparr>timestamp_ms = 1000, sample_value = 5, sample_type = 1\<rparr>]"
    by (simp add: n PACKET_TYPE_ACC_def)
  then show ?thesis
    by (simp add: h) (simp add: deref_def getAccData_def push_def newCollector_def)
qed

section \<open>The decoded values in the log and the buffers\<close>

text \<open>On bytes, the three-way \<open>|\<close> of the shifted bytes is their weighted sum.\<close>

lemma or_bytes:
  fixes low mid high :: "8 word"
  shows "(int (unat low) OR push_bit 8 (int (unat mid))) OR push_bit 16 (int (unat high)) =
           int (unat low) + 256 * int (unat mid) + 65536 * int (unat high)"
proof -
  have b: "0 \<le> int (unat w)" "int (unat w) < 2 ^ 8" for w :: "8 word"
    using unsigned_less [of w, where ?'a = int] by simp_all
  have 1: "int (unat low) OR push_bit 8 (int (unat mid)) =
             int (unat low) + push_bit 8 (int (unat mid))"
    by (rule or_low_high [OF b])
  have "int (unat low) + push_bit 8 (int (unat mid)) < 2 ^ 16"
    using b(2) [of low] b(2) [of mid] by (simp add: push_bit_eq_mult)
  moreover have "0 \<le> int (unat low) + push_bit 8 (int (unat mid))"
    by (simp add: push_bit_eq_mult)
  ultimately have 2:
    "(int (unat low) + push_bit 8 (int (unat mid))) OR push_bit 16 (int (unat high)) =
       (int (unat low) + push_bit 8 (int (unat mid))) + push_bit 16 (int (unat high))"
    by (intro or_low_high)
  show ?thesis unfolding 1 2 by (simp add: push_bit_eq_mult)
qed

lemma projr_readSample:
  assumes "int i < sampleCount dv"
  shows "projr (readSample dv (3 + i * 3)) =
           (int (unat (dv ! (3 + i * 3))) OR push_bit 8 (int (unat (dv ! (3 + i * 3 + 1)))))
             OR push_bit 16 (int (unat (dv ! (3 + i * 3 + 2))))"
  unfolding or_bytes
  using readSample_in_range [OF sampleCount_offset [OF assms]] by (simp add: add.assoc)

lemma map_upt_cong:
  assumes "\<And>i. i < n \<Longrightarrow> f i = g i"
  shows "map f [0..<n] = map g [0..<n]"
  using assms by simp

text \<open>
  Claim C4. For a valid ACC (PPG) packet the handler returns, and the value field of the
  \<open>i\<close>-th row it appends to the log, and the value of the \<open>i\<close>-th data point it pushes, is
  \<open>low | (mid << 8) | (high << 16)\<close> of the three bytes of group \<open>i\<close> of the payload (the bytes
  at \<open>3 + 3 i\<close> and the two after it). That value is \<open>low + 256 mid + 65536 high\<close> and lies
  between 0 and \<open>2^24 - 1\<close>. The triplet 01 02 03 decodes to 197121, also as the handler logs
  it.
\<close>

theorem samples_decoded_little_endian:
  "(3 \<le> byteLength dv \<and> 1 \<le> sampleCount dv \<and> getUint8 dv 0 = Inr PACKET_TYPE_ACC \<longrightarrow>
      (\<exists>s'. handleNotification now dv s = Inr s' \<and>
         map (\<lambda>row. row ! 1)
           (drop (length (csvRows (genesisCheck now PACKET_TYPE_ACC s))) (csvRows s')) =
           map (\<lambda>i. Num (rat_of_int
                  ((int (unat (dv ! (3 + i * 3))) OR push_bit 8 (int (unat (dv ! (3 + i * 3 + 1)))))
                  OR push_bit 16 (int (unat (dv ! (3 + i * 3 + 2)))))))
             [0..<nat (sampleCount dv)] \<and>
         (reachable s \<longrightarrow>
            map sample_value (drop (length (deref s (getAccData s))) (deref s' (getAccData s))) =
              map (\<lambda>i.
                  ((int (unat (dv ! (3 + i * 3))) OR push_bit 8 (int (unat (dv ! (3 + i * 3 + 1)))))
                  OR push_bit 16 (int (unat (dv ! (3 + i * 3 + 2))))))
                [0..<nat (sampleCount dv)])))
   \<and>
   (3 \<le> byteLength dv \<and> 1 \<le> sampleCount dv \<and> getUint8 dv 0 = Inr PACKET_TYPE_PPG \<longrightarrow>
      (\<exists>s'. handleNotification now dv s = Inr s' \<and>
         map (\<lambda>row. row ! 1)
           (drop (length (csvRows (genesisCheck now PACKET_TYPE_PPG s))) (csvRows s')) =
           map (\<lambda>i. Num (rat_of_int
                  ((int (unat (dv ! (3 + i * 3))) OR push_bit 8 (int (unat (dv ! (3 + i * 3 + 1)))))
                  OR push_bit 16 (int (unat (dv ! (3 + i * 3 + 2)))))))
             [0..<nat (sampleCount dv)] \<and>
         (reachable s \<longrightarrow>
            map sample_value (drop (length (deref s (getPpgData s))) (deref s' (getPpgData s))) =
              map (\<lambda>i.
                  ((int (unat (dv ! (3 + i * 3))) OR push_bit 8 (int (unat (dv ! (3 + i * 3 + 1)))))
                  OR push_bit 16 (int (unat (dv ! (3 + i * 3 + 2))))))
                [0..<nat (sampleCount dv)])))
   \<and>
   (int i < sampleCount dv \<longrightarrow>
      (\<exists>v. readSample dv (3 + i * 3) = Inr v \<and>
           v = ((int (unat (dv ! (3 + i * 3))) OR push_bit 8 (int (unat (dv ! (3 + i * 3 + 1)))))
                  OR push_bit 16 (int (unat (dv ! (3 + i * 3 + 2))))) \<and>
           v = int (unat (dv ! (3 + i * 3))) + 256 * int (unat (dv ! (3 + i * 3 + 1)))
               + 65536 * int (unat (dv ! (3 + i * 3 + 2))) \<and>
           0 \<le> v \<and> v \<le> 2 ^ 24 - 1))
   \<and> (\<forall>offset v. readSample dv offset = Inr v \<longrightarrow> 0 \<le> v \<and> v \<le> 2 ^ 24 - 1)
   \<and> readSample [0x01, 0x02, 0x03] 0 = Inr 197121
   \<and> csvRows (projr (handleNotification 1000 [1, 0, 0, 0x01, 0x02, 0x03] newCollector)) =
       [[Str ''timestamp_ms'', Str ''magnitude_ug''], [Num 1000, Num 197121]]"
proof -
  have "\<exists>s'. handleNotification now dv s = Inr s' \<and>
         map (\<lambda>row. row ! 1)
           (drop (length (csvRows (genesisCheck now PACKET_TYPE_ACC s))) (csvRows s')) =
           map (\<lambda>i. Num (rat_of_int
                  ((int (unat (dv ! (3 + i * 3))) OR push_bit 8 (int (unat (dv ! (3 + i * 3 + 1)))))
                  OR push_bit 16 (int (unat (dv ! (3 + i * 3 + 2)))))))
             [0..<nat (sampleCount dv)] \<and>
         (reachable s \<longrightarrow>
            map sample_value (drop (length (deref s (getAccData s))) (deref s' (getAccData s))) =
              map (\<lambda>i.
                  ((int (unat (dv ! (3 + i * 3))) OR push_bit 8 (int (unat (dv ! (3 + i * 3 + 1)))))
                  OR push_bit 16 (int (unat (dv ! (3 + i * 3 + 2))))))
                [0..<nat (sampleCount dv)])"
    if a: "3 \<le> byteLength dv" "1 \<le> sampleCount dv" "getUint8 dv 0 = Inr PACKET_TYPE_ACC"
  proof -
    have v: "0 < sampleCount dv" using a(2) by simp
    from handleNotification_acc [OF v a(3) header_reads(2) [OF a(1)], of now s]
    obtain s' g where h: "handleNotification now dv s = Inr s'"
      and rows: "csvRows s' = csvRows (genesisCheck now PACKET_TYPE_ACC s) @
             map (\<lambda>i. [Num (rat_of_int g +
                         rat_of_nat ((unat (dv ! 1) + 256 * unat (dv ! 2)) * 5 + i) * 16),
                       Num (rat_of_int (projr (readSample dv (3 + i * 3))))])
               [0..<nat (sampleCount dv)]"
      and pts: "accDataPoints s < nextRef s \<longrightarrow>
              deref s' (getAccData s) = deref s (getAccData s) @
                map (\<lambda>i. \<lparr>timestamp_ms = rat_of_int g +
                            rat_of_nat ((unat (dv ! 1) + 256 * unat (dv ! 2)) * 5 + i) * 16,
                          sample_value = projr (readSample dv (3 + i * 3)),
                          sample_type = PACKET_TYPE_ACC\<rparr>)
                  [0..<nat (sampleCount dv)]"
      by blast
    have dec: "projr (readSample dv (3 + i * 3)) =
                  ((int (unat (dv ! (3 + i * 3))) OR push_bit 8 (int (unat (dv ! (3 + i * 3 + 1)))))
                  OR push_bit 16 (int (unat (dv ! (3 + i * 3 + 2)))))"
      if "i < nat (sampleCount dv)" for i
      using that by (intro projr_readSample) simp
    have r: "map (\<lambda>row. row ! 1)
           (drop (length (csvRows (genesisCheck now PACKET_TYPE_ACC s))) (csvRows s')) =
           map (\<lambda>i. Num (rat_of_int
                  ((int (unat (dv ! (3 + i * 3))) OR push_bit 8 (int (unat (dv ! (3 + i * 3 + 1)))))
                  OR push_bit 16 (int (unat (dv ! (3 + i * 3 + 2)))))))
             [0..<nat (sampleCount dv)]"
      unfolding rows by (simp add: dec)
    have p: "map sample_value (drop (length (deref s (getAccData s))) (deref s' (getAccData s))) =
              map (\<lambda>i.
                  ((int (unat (dv ! (3 + i * 3))) OR push_bit 8 (int (unat (dv ! (3 + i * 3 + 1)))))
                  OR push_bit 16 (int (unat (dv ! (3 + i * 3 + 2))))))
                [0..<nat (sampleCount dv)]"
      if "reachable s"
    proof -
      have "accDataPoints s < nextRef s"
        using reachable_consistent [OF that] by (simp add: consistent_def)
      with pts show ?thesis by (simp add: dec o_def)
    qed
    from h r p show ?thesis by blast
  qed
  then have A: "(3 \<le> byteLength dv \<and> 1 \<le> sampleCount dv \<and> getUint8 dv 0 = Inr PACKET_TYPE_ACC \<longrightarrow>
      (\<exists>s'. handleNotification now dv s = Inr s' \<and>
         map (\<lambda>row. row ! 1)
           (drop (length (csvRows (genesisCheck now PACKET_TYPE_ACC s))) (csvRows s')) =
           map (\<lambda>i. Num (rat_of_int
                  ((int (unat (dv ! (3 + i * 3))) OR push_bit 8 (int (unat (dv ! (3 + i * 3 + 1)))))
                  OR push_bit 16 (int (unat (dv ! (3 + i * 3 + 2)))))))
             [0..<nat (sampleCount dv)] \<and>
         (reachable s \<longrightarrow>
            map sample_value (drop (length (deref s (getAccData s))) (deref s' (getAccData s))) =
              map (\<lambda>i.
                  ((int (unat (dv ! (3 + i * 3))) OR push_bit 8 (int (unat (dv ! (3 + i * 3 + 1)))))
                  OR push_bit 16 (int (unat (dv ! (3 + i * 3 + 2))))))
                [0..<nat (sampleCount dv)])))" by blast
  have "\<exists>s'. handleNotification now dv s = Inr s' \<and>
         map (\<lambda>row. row ! 1)
           (drop (length (csvRows (genesisCheck now PACKET_TYPE_PPG s))) (csvRows s')) =
           map (\<lambda>i. Num (rat_of_int
                  ((int (unat (dv ! (3 + i * 3))) OR push_bit 8 (int (unat (dv ! (3 + i * 3 + 1)))))
                  OR push_bit 16 (int (unat (dv ! (3 + i * 3 + 2)))))))
             [0..<nat (sampleCount dv)] \<and>
         (reachable s \<longrightarrow>
            map sample_value (drop (length (deref s (getPpgData s))) (deref s' (getPpgData s))) =
              map (\<lambda>i.
                  ((int (unat (dv ! (3 + i * 3))) OR push_bit 8 (int (unat (dv ! (3 + i * 3 + 1)))))
                  OR push_bit 16 (int (unat (dv ! (3 + i * 3 + 2))))))
                [0..<nat (sampleCount dv)])"
    if a: "3 \<le> byteLength dv" "1 \<le> sampleCount dv" "getUint8 dv 0 = Inr PACKET_TYPE_PPG"
  proof -
    have v: "0 < sampleCount dv" using a(2) by simp
    from handleNotification_ppg [OF v a(3) header_reads(2) [OF a(1)], of now s]
    obtain s' g where h: "handleNotification now dv s = Inr s'"
      and rows: "csvRows s' = csvRows (genesisCheck now PACKET_TYPE_PPG s) @
             map (\<lambda>i. [Num (rat_of_int g +
                         rat_of_nat ((unat (dv ! 1) + 256 * unat (dv ! 2)) * 5 + i) * (5 / 2)),
                       Num (rat_of_int (projr (readSample dv (3 + i * 3))))])
               [0..<nat (sampleCount dv)]"
      and pts: "ppgDataPoints s < nextRef s \<longrightarrow>
              deref s' (getPpgData s) = deref s (getPpgData s) @
                map (\<lambda>i. \<lparr>timestamp_ms = rat_of_int g +
                            rat_of_nat ((unat (dv ! 1) + 256 * unat (dv ! 2)) * 5 + i) * (5 / 2),
                          sample_value = projr (readSample dv (3 + i * 3)),
                          sample_type = PACKET_TYPE_PPG\<rparr>)
                  [0..<nat (sampleCount dv)]"
      by blast
    have dec: "projr (readSample dv (3 + i * 3)) =
                  ((int (unat (dv ! (3 + i * 3))) OR push_bit 8 (int (unat (dv ! (3 + i * 3 + 1)))))
                  OR push_bit 16 (int (unat (dv ! (3 + i * 3 + 2)))))"
      if "i < nat (sampleCount dv)" for i
      using that by (intro projr_readSample) simp
    have r: "map (\<lambda>row. row ! 1)
           (drop (length (csvRows (genesisCheck now PACKET_TYPE_PPG s))) (csvRows s')) =
           map (\<lambda>i. Num (rat_of_int
                  ((int (unat (dv ! (3 + i * 3))) OR push_bit 8 (int (unat (dv ! (3 + i * 3 + 1)))))
                  OR push_bit 16 (int (unat (dv ! (3 + i * 3 + 2)))))))
             [0..<nat (sampleCount dv)]"
      unfolding rows by (simp add: dec)
    have p: "map sample_value (drop (length (deref s (getPpgData s))) (deref s' (getPpgData s))) =
              map (\<lambda>i.
                  ((int (unat (dv ! (3 + i * 3))) OR push_bit 8 (int (unat (dv ! (3 + i * 3 + 1)))))
                  OR push_bit 16 (int (unat (dv ! (3 + i * 3 + 2))))))
                [0..<nat (sampleCount dv)]"
      if "reachable s"
    proof -
      have "ppgDataPoints s < nextRef s"
        using reachable_consistent [OF that] by (simp add: consistent_def)
      with pts show ?thesis by (simp add: dec o_def)
    qed
    from h r p show ?thesis by blast
  qed
  then have P: "(3 \<le> byteLength dv \<and> 1 \<le> sampleCount dv \<and> getUint8 dv 0 = Inr PACKET_TYPE_PPG \<longrightarrow>
      (\<exists>s'. handleNotification now dv s = Inr s' \<and>
         map (\<lambda>row. row ! 1)
           (drop (length (csvRows (genesisCheck now PACKET_TYPE_PPG s))) (csvRows s')) =
           map (\<lambda>i. Num (rat_of_int
                  ((int (unat (dv ! (3 + i * 3))) OR push_bit 8 (int (unat (dv ! (3 + i * 3 + 1)))))
                  OR push_bit 16 (int (unat (dv ! (3 + i * 3 + 2)))))))
             [0..<nat (sampleCount dv)] \<and>
         (reachable s \<longrightarrow>
            map sample_value (drop (length (deref s (getPpgData s))) (deref s' (getPpgData s))) =
              map (\<lambda>i.
                  ((int (unat (dv ! (3 + i * 3))) OR push_bit 8 (int (unat (dv ! (3 + i * 3 + 1)))))
                  OR push_bit 16 (int (unat (dv ! (3 + i * 3 + 2))))))
                [0..<nat (sampleCount dv)])))" by blast
  have R: "(int i < sampleCount dv \<longrightarrow>
      (\<exists>v. readSample dv (3 + i * 3) = Inr v \<and>
           v = ((int (unat (dv ! (3 + i * 3))) OR push_bit 8 (int (unat (dv ! (3 + i * 3 + 1)))))
                  OR push_bit 16 (int (unat (dv ! (3 + i * 3 + 2))))) \<and>
           v = int (unat (dv ! (3 + i * 3))) + 256 * int (unat (dv ! (3 + i * 3 + 1)))
               + 65536 * int (unat (dv ! (3 + i * 3 + 2))) \<and>
           0 \<le> v \<and> v \<le> 2 ^ 24 - 1))"
  proof
    assume l: "int i < sampleCount dv"
    then have r: "3 + i * 3 + 2 < byteLength dv" by (rule sampleCount_offset)
    show "\<exists>v. readSample dv (3 + i * 3) = Inr v \<and>
           v = ((int (unat (dv ! (3 + i * 3))) OR push_bit 8 (int (unat (dv ! (3 + i * 3 + 1)))))
                  OR push_bit 16 (int (unat (dv ! (3 + i * 3 + 2))))) \<and>
           v = int (unat (dv ! (3 + i * 3))) + 256 * int (unat (dv ! (3 + i * 3 + 1)))
               + 65536 * int (unat (dv ! (3 + i * 3 + 2))) \<and>
           0 \<le> v \<and> v \<le> 2 ^ 24 - 1"
      using readSample_in_range [OF r] readSample_bounds [of dv "3 + i * 3"]
        readSample_projr [OF l] projr_readSample [OF l]
      by (simp add: add.assoc)
  qed
  have B: "\<forall>offset v. readSample dv offset = Inr v \<longrightarrow> 0 \<le> v \<and> v \<le> 2 ^ 24 - 1"
    using readSample_bounds by blast
  have T: "readSample [0x01, 0x02, 0x03] 0 = Inr 197121"
    using readSample_in_range [of 0 "[0x01, 0x02, 0x03]"] by (simp add: byteLength_def)
  have H: "csvRows (projr (handleNotification 1000 [1, 0, 0, 0x01, 0x02, 0x03] newCollector)) =
       [[Str ''timestamp_ms'', Str ''magnitude_ug''], [Num 1000, Num 197121]]"
  proof -
    let ?dv = "[1, 0, 0, 0x01, 0x02, 0x03] :: DataView"
    obtain s' where h: "handleNotification 1000 ?dv newCollector = Inr s'"
      using handleNotification_total by blast
    have n: "sampleCount ?dv = 1" by (simp add: sampleCount_def byteLength_def)
    have v: "0 < sampleCount ?dv" "getUint8 ?dv 0 = Inr PACKET_TYPE_ACC"
      "getUint16 ?dv 1 True = Inr 0"
      by (simp_all add: n getUint8_def getUint16_def byteLength_def PACKET_TYPE_ACC_def)
    have g: "genesisTS s' PACKET_TYPE_ACC = Some 1000"
      using handleNotification_genesis_step [OF h, of PACKET_TYPE_ACC] v
      by (simp add: n byteLength_def newCollector_def falsy_def)
    from handleNotification_acc [OF v, of 1000 newCollector] h g
    have "csvRows s' = csvRows (genesisCheck 1000 PACKET_TYPE_ACC newCollector) @
           map (\<lambda>i. [Num (rat_of_int 1000 + rat_of_nat (0 * 5 + i) * 16),
                     Num (rat_of_int (projr (readSample ?dv (3 + i * 3))))])
             [0..<nat (sampleCount ?dv)]"
      by auto
    moreover have "readSample ?dv 3 = Inr 197121"
      by (simp add: readSample_in_range byteLength_def)
    ultimately have "csvRows s' =
        [[Str ''timestamp_ms'', Str ''magnitude_ug''], [Num 1000, Num 197121]]"
      by (simp add: n genesisCheck_def newCollector_def falsy_def)
    then show ?thesis by (simp add: h)
  qed
  from A P R B T H show ?thesis by (intro conjI)
qed

theorem samples_decoded_little_endian_witness:
  "(let dv = [1, 0, 0, 1, 2, 3, 255, 255, 255];
        s' = projr (handleNotification 1000 dv newCollector)
    in 3 \<le> byteLength dv \<and> 1 \<le> sampleCount dv \<and> getUint8 dv 0 = Inr PACKET_TYPE_ACC \<and>
       reachable newCollector \<and> int 1 < sampleCount dv \<and>
       handleNotification 1000 dv newCollector = Inr s' \<and>
       map (\<lambda>row. row ! 1)
         (drop (length (csvRows (genesisCheck 1000 PACKET_TYPE_ACC newCollector))) (csvRows s')) =
         [Num 197121, Num 16777215] \<and>
       map sample_value
         (drop (length (deref newCollector (getAccData newCollector)))
            (deref s' (getAccData newCollector))) = [197121, 16777215] \<and>
       readSample dv (3 + 1 * 3) = Inr 16777215 \<and>
       (0 :: int) \<le> 16777215 \<and> (16777215 :: int) \<le> 2 ^ 24 - 1)
   \<and>
   (let dv = [2, 0, 0, 1, 2, 3, 255, 255, 255];
        s' = projr (handleNotification 1000 dv newCollector)
    in 3 \<le> byteLength dv \<and> 1 \<le> sampleCount dv \<and> getUint8 dv 0 = Inr PACKET_TYPE_PPG \<and>
       reachable newCollector \<and> int 1 < sampleCount dv \<and>
       handleNotification 1000 dv newCollector = Inr s' \<and>
       map (\<lambda>row. row ! 1)
         (drop (length (csvRows (genesisCheck 1000 PACKET_TYPE_PPG newCollector))) (csvRows s')) =
         [Num 197121, Num 16777215] \<and>
       map sample_value
         (drop (length (deref newCollector (getPpgData newCollector)))
            (deref s' (getPpgData newCollector))) = [197121, 16777215] \<and>
       readSample dv (3 + 1 * 3) = Inr 16777215 \<and>
       (0 :: int) \<le> 16777215 \<and> (16777215 :: int) \<le> 2 ^ 24 - 1)"
proof -
  have "(let dv = [1, 0, 0, 1, 2, 3, 255, 255, 255];
        s' = projr (handleNotification 1000 dv newCollector)
    in 3 \<le> byteLength dv \<and> 1 \<le> sampleCount dv \<and> getUint8 dv 0 = Inr PACKET_TYPE_ACC \<and>
       reachable newCollector \<and> int 1 < sampleCount dv \<and>
       handleNotification 1000 dv newCollector = Inr s' \<and>
       map (\<lambda>row. row ! 1)
         (drop (length (csvRows (genesisCheck 1000 PACKET_TYPE_ACC newCollector))) (csvRows s')) =
         [Num 197121, Num 16777215] \<and>
       map sample_value
         (drop (length (deref newCollector (getAccData newCollector)))
            (deref s' (getAccData newCollector))) = [197121, 16777215] \<and>
       readSample dv (3 + 1 * 3) = Inr 16777215 \<and>
       (0 :: int) \<le> 16777215 \<and> (16777215 :: int) \<le> 2 ^ 24 - 1)"
  proof -
    define dv :: DataView where "dv = [1, 0, 0, 1, 2, 3, 255, 255, 255]"
    obtain s' where h: "handleNotification 1000 dv newCollector = Inr s'"
      using handleNotification_total by blast
    have v: "3 \<le> byteLength dv" "1 \<le> sampleCount dv"
      "getUint8 dv 0 = Inr PACKET_TYPE_ACC" "int 1 < sampleCount dv"
      by (simp_all add: dv_def sampleCount_def getUint8_def byteLength_def PACKET_TYPE_ACC_def)
    have n: "[0..<nat (sampleCount dv)] = [0, 1]"
      by (simp add: dv_def sampleCount_def byteLength_def eval_nat_numeral upt_rec)
    note t = samples_decoded_little_endian [of dv 1000 newCollector 1]
    from t [THEN conjunct1] v h reachable.constructed
    have "map (\<lambda>row. row ! 1)
           (drop (length (csvRows (genesisCheck 1000 PACKET_TYPE_ACC newCollector))) (csvRows s')) =
           map (\<lambda>i. Num (rat_of_int
                  ((int (unat (dv ! (3 + i * 3))) OR push_bit 8 (int (unat (dv ! (3 + i * 3 + 1)))))
                  OR push_bit 16 (int (unat (dv ! (3 + i * 3 + 2)))))))
             [0..<nat (sampleCount dv)]"
      "map sample_value (drop (length (deref newCollector (getAccData newCollector)))
          (deref s' (getAccData newCollector))) =
              map (\<lambda>i.
                  ((int (unat (dv ! (3 + i * 3))) OR push_bit 8 (int (unat (dv ! (3 + i * 3 + 1)))))
                  OR push_bit 16 (int (unat (dv ! (3 + i * 3 + 2))))))
                [0..<nat (sampleCount dv)]"
      by auto
    then have r: "map (\<lambda>row. row ! 1)
           (drop (length (csvRows (genesisCheck 1000 PACKET_TYPE_ACC newCollector))) (csvRows s')) =
           [Num 197121, Num 16777215]"
      "map sample_value (drop (length (deref newCollector (getAccData newCollector)))
          (deref s' (getAccData newCollector))) = [197121, 16777215]"
      unfolding n or_bytes by (simp_all add: dv_def)
    from t v(4) have rs: "readSample dv (3 + 1 * 3) = Inr 16777215"
      unfolding or_bytes by (auto simp: dv_def)
    from v h r rs reachable.constructed show ?thesis
      unfolding Let_def by (simp add: h flip: dv_def)
  qed
  moreover
  have "(let dv = [2, 0, 0, 1, 2, 3, 255, 255, 255];
        s' = projr (handleNotification 1000 dv newCollector)
    in 3 \<le> byteLength dv \<and> 1 \<le> sampleCount dv \<and> getUint8 dv 0 = Inr PACKET_TYPE_PPG \<and>
       reachable newCollector \<and> int 1 < sampleCount dv \<and>
       handleNotification 1000 dv newCollector = Inr s' \<and>
       map (\<lambda>row. row ! 1)
         (drop (length (csvRows (genesisCheck 1000 PACKET_TYPE_PPG newCollector))) (csvRows s')) =
         [Num 197121, Num 16777215] \<and>
       map sample_value
         (drop (length (deref newCollector (getPpgData newCollector)))
            (deref s' (getPpgData newCollector))) = [197121, 16777215] \<and>
       readSample dv (3 + 1 * 3) = Inr 16777215 \<and>
       (0 :: int) \<le> 16777215 \<and> (16777215 :: int) \<le> 2 ^ 24 - 1)"
  proof -
    define dv :: DataView where "dv = [2, 0, 0, 1, 2, 3, 255, 255, 255]"
    obtain s' where h: "handleNotification 1000 dv newCollector = Inr s'"
      using handleNotification_total by blast
    have v: "3 \<le> byteLength dv" "1 \<le> sampleCount dv"
      "getUint8 dv 0 = Inr PACKET_TYPE_PPG" "int 1 < sampleCount dv"
      by (simp_all add: dv_def sampleCount_def getUint8_def byteLength_def PACKET_TYPE_PPG_def)
    have n: "[0..<nat (sampleCount dv)] = [0, 1]"
      by (simp add: dv_def sampleCount_def byteLength_def eval_nat_numeral upt_rec)
    note t = samples_decoded_little_endian [of dv 1000 newCollector 1]
    from t [THEN conjunct2 [THEN conjunct1]] v h reachable.constructed
    have "map (\<lambda>row. row ! 1)
           (drop (length (csvRows (genesisCheck 1000 PACKET_TYPE_PPG newCollector))) (csvRows s')) =
           map (\<lambda>i. Num (rat_of_int
                  ((int (unat (dv ! (3 + i * 3))) OR push_bit 8 (int (unat (dv ! (3 + i * 3 + 1)))))
                  OR push_bit 16 (int (unat (dv ! (3 + i * 3 + 2)))))))
             [0..<nat (sampleCount dv)]"
      "map sample_value (drop (length (deref newCollector (getPpgData newCollector)))
          (deref s' (getPpgData newCollector))) =
              map (\<lambda>i.
                  ((int (unat (dv ! (3 + i * 3))) OR push_bit 8 (int (unat (dv ! (3 + i * 3 + 1)))))
                  OR push_bit 16 (int (unat (dv ! (3 + i * 3 + 2))))))
                [0..<nat (sampleCount dv)]"
      by auto
    then have r: "map (\<lambda>row. row ! 1)
           (drop (length (csvRows (genesisCheck 1000 PACKET_TYPE_PPG newCollector))) (csvRows s')) =
           [Num 197121, Num 16777215]"
      "map sample_value (drop (length (deref newCollector (getPpgData newCollector)))
          (deref s' (getPpgData newCollector))) = [197121, 16777215]"
      unfolding n or_bytes by (simp_all add: dv_def)
    from t v(4) have rs: "readSample dv (3 + 1 * 3) = Inr 16777215"
      unfolding or_bytes by (auto simp: dv_def)
    from v h r rs reachable.constructed show ?thesis
      unfolding Let_def by (simp add: h flip: dv_def)
  qed
  ultimately show ?thesis by (rule conjI)
qed

section \<open>Export\<close>

lemma join_snoc: "xs \<noteq> [] \<Longrightarrow> join sep (xs @ [x]) = join sep xs @ sep @ x"
  by (induction sep xs rule: join.induct) auto

lemma numToString_examples:
  "numToString 1000 = ''1000''" "numToString 1016 = ''1016''"
  "numToString 5 = ''5''" "numToString 6 = ''6''"
  by (simp_all add: numToString_def natToString.simps digitChar_def)

lemma numToString_half: "numToString (5 / 2) = ''2.5''"
  by code_simp

lemma join_concat:
  "join sep xs = (case xs of [] \<Rightarrow> [] | x # ys \<Rightarrow> x @ concat (map (\<lambda>y. sep @ y) ys))"
  by (induction sep xs rule: join.induct) simp_all

lemma append_single: "(@) [c] = (#) c"
  by (rule ext) simp

lemma downloadCSV_concat:
  "downloadCSV s =
     (case map (\<lambda>r. (case map cellToString r of
                        [] \<Rightarrow> []
                      | f # fs \<Rightarrow> f @ concat (map (\<lambda>g. CHR '','' # g) fs)))
             (csvRows s) of
        [] \<Rightarrow> []
      | l # ls \<Rightarrow> l @ concat (map (\<lambda>m. CHR 0x0A # m) ls))"
  unfolding downloadCSV_def by (simp add: join_concat [abs_def] append_single)

lemma numToString_nat:
  "numToString (rat_of_nat n) =
     (if n < 10 then [''0123456789'' ! n]
      else numToString (rat_of_nat (n div 10)) @ [''0123456789'' ! (n mod 10)])"
proof -
  have nn: "numToString (rat_of_nat m) = natToString m" for m
    by (simp add: numToString_def)
  show ?thesis
    unfolding nn by (subst natToString.simps) (simp add: digitChar_def)
qed

lemma numToString_neg:
  assumes "0 < x"
  shows "numToString (- x) = CHR ''-'' # numToString x"
  using assms by (simp add: numToString_def)

lemma fracDigits_half: "fracDigits 20 (1 / 2) = ''5''"
  by (simp add: eval_nat_numeral digitChar_def)

lemma numToString_half_more:
  "numToString (rat_of_nat n + 1 / 2) = numToString (rat_of_nat n) @ ''.5''"
proof -
  have fl: "\<lfloor>rat_of_nat n + 1 / 2\<rfloor> = int n"
    by (simp add: floor_unique)
  have ab: "\<bar>rat_of_nat n + 1 / 2\<bar> = rat_of_nat n + 1 / 2" by simp
  show ?thesis
    unfolding numToString_def ab fl Let_def
    by (simp add: fracDigits_half del: fracDigits.simps)
qed

text \<open>Every number in the log is an integer or a half-integer.\<close>

lemma half_integers:
  "\<exists>k::int. rat_of_int g + rat_of_nat m * 16 = rat_of_int k / 2"
  "\<exists>k::int. rat_of_int g + rat_of_nat m * (5 / 2) = rat_of_int k / 2"
  "\<exists>k::int. rat_of_int v = rat_of_int k / 2"
proof -
  have "rat_of_int g + rat_of_nat m * 16 = rat_of_int (2 * (g + 16 * int m)) / 2" by simp
  then show "\<exists>k::int. rat_of_int g + rat_of_nat m * 16 = rat_of_int k / 2" by blast
  have "rat_of_int g + rat_of_nat m * (5 / 2) = rat_of_int (2 * g + 5 * int m) / 2" by simp
  then show "\<exists>k::int. rat_of_int g + rat_of_nat m * (5 / 2) = rat_of_int k / 2" by blast
  have "rat_of_int v = rat_of_int (2 * v) / 2" by simp
  then show "\<exists>k::int. rat_of_int v = rat_of_int k / 2" by blast
qed

lemma log_cells_step:
  assumes c: "consistent s" and h: "handleNotification now dv s = Inr s'"
    and old: "\<forall>row\<in>set (csvRows s). \<forall>c\<in>set row.
                (\<exists>t. c = Str t) \<or> (\<exists>k::int. c = Num (rat_of_int k / 2))"
  shows "\<forall>row\<in>set (csvRows s'). \<forall>c\<in>set row.
                (\<exists>t. c = Str t) \<or> (\<exists>k::int. c = Num (rat_of_int k / 2))"
proof -
  define H where "H = (\<lambda>c. (\<exists>t. c = Str t) \<or> (\<exists>k::int. c = Num (rat_of_int k / 2)))"
  have Hs: "H (Str t)" for t by (simp add: H_def)
  have Ha: "H (Num (rat_of_int g + rat_of_nat m * 16))" for g m
    unfolding H_def using half_integers(1) [of g m] by blast
  have Hp: "H (Num (rat_of_int g + rat_of_nat m * (5 / 2)))" for g m
    unfolding H_def using half_integers(2) [of g m] by blast
  have Hv: "H (Num (rat_of_int v))" for v
    unfolding H_def using half_integers(3) [of v] by blast
  have old': "\<forall>row\<in>set (csvRows s). \<forall>c\<in>set row. H c"
    using old by (simp add: H_def)
  have hd: "\<forall>row\<in>set (csvRows (genesisCheck now u s)). \<forall>c\<in>set row. H c" for u
    using old' Hs by (auto simp: genesisCheck_csvRows)
  have "\<forall>row\<in>set (csvRows s'). \<forall>c\<in>set row. H c"
  proof (cases "0 < sampleCount dv")
    case False
    then have "handleNotification now dv s = Inr s"
      by (intro handleNotification_short) simp
    with h old' show ?thesis by simp
  next
    case True
    then have len: "3 \<le> byteLength dv" using valid_length [OF True] by simp
    note t = header_reads(1) [OF len] and cnt = header_reads(2) [OF len]
    consider "unat (dv ! 0) = PACKET_TYPE_ACC" | "unat (dv ! 0) = PACKET_TYPE_PPG"
      | "unat (dv ! 0) \<noteq> PACKET_TYPE_ACC" "unat (dv ! 0) \<noteq> PACKET_TYPE_PPG" by blast
    then show ?thesis
    proof cases
      case 1
      from handleNotification_acc [OF True t [unfolded 1] cnt, of now s] h
      obtain g where "csvRows s' = csvRows (genesisCheck now PACKET_TYPE_ACC s) @
             map (\<lambda>i. [Num (rat_of_int g +
                         rat_of_nat ((unat (dv ! 1) + 256 * unat (dv ! 2)) * 5 + i) * 16),
                       Num (rat_of_int (projr (readSample dv (3 + i * 3))))])
               [0..<nat (sampleCount dv)]"
        by auto
      then have rows: "csvRows s' = csvRows (genesisCheck now PACKET_TYPE_ACC s) @
             map (\<lambda>i. [Num (rat_of_int g +
                         rat_of_nat ((unat (dv ! 1) + 256 * unat (dv ! 2)) * 5 + i) * 16),
                       Num (rat_of_int (projr (readSample dv (3 + i * 3))))])
               [0..<nat (sampleCount dv)]" .
      show ?thesis
      proof (intro ballI)
        fix row c assume r: "row \<in> set (csvRows s')" and c: "c \<in> set row"
        from r consider "row \<in> set (csvRows (genesisCheck now PACKET_TYPE_ACC s))"
          | i where "row = [Num (rat_of_int g +
                         rat_of_nat ((unat (dv ! 1) + 256 * unat (dv ! 2)) * 5 + i) * 16),
                       Num (rat_of_int (projr (readSample dv (3 + i * 3))))]"
          unfolding rows set_append set_map by blast
        then show "H c"
        proof cases
          case 1
          with c hd [of PACKET_TYPE_ACC] show ?thesis by blast
        next
          case 2
          with c have "c = Num (rat_of_int g +
                         rat_of_nat ((unat (dv ! 1) + 256 * unat (dv ! 2)) * 5 + i) * 16) \<or>
                       c = Num (rat_of_int (projr (readSample dv (3 + i * 3))))"
            by simp
          then show ?thesis using Ha Hv by (elim disjE) (simp_all only:)
        qed
      qed
    next
      case 2
      from handleNotification_ppg [OF True t [unfolded 2] cnt, of now s] h
      obtain g where "csvRows s' = csvRows (genesisCheck now PACKET_TYPE_PPG s) @
             map (\<lambda>i. [Num (rat_of_int g +
                         rat_of_nat ((unat (dv ! 1) + 256 * unat (dv ! 2)) * 5 + i) * (5 / 2)),
                       Num (rat_of_int (projr (readSample dv (3 + i * 3))))])
               [0..<nat (sampleCount dv)]"
        by auto
      then have rows: "csvRows s' = csvRows (genesisCheck now PACKET_TYPE_PPG s) @
             map (\<lambda>i. [Num (rat_of_int g +
                         rat_of_nat ((unat (dv ! 1) + 256 * unat (dv ! 2)) * 5 + i) * (5 / 2)),
                       Num (rat_of_int (projr (readSample dv (3 + i * 3))))])
               [0..<nat (sampleCount dv)]" .
      show ?thesis
      proof (intro ballI)
        fix row c assume r: "row \<in> set (csvRows s')" and c: "c \<in> set row"
        from r consider "row \<in> set (csvRows (genesisCheck now PACKET_TYPE_PPG s))"
          | i where "row = [Num (rat_of_int g +
                         rat_of_nat ((unat (dv ! 1) + 256 * unat (dv ! 2)) * 5 + i) * (5 / 2)),
                       Num (rat_of_int (projr (readSample dv (3 + i * 3))))]"
          unfolding rows set_append set_map by blast
        then show "H c"
        proof cases
          case 1
          with c hd [of PACKET_TYPE_PPG] show ?thesis by blast
        next
          case 2
          with c have "c = Num (rat_of_int g +
                         rat_of_nat ((unat (dv ! 1) + 256 * unat (dv ! 2)) * 5 + i) * (5 / 2)) \<or>
                       c = Num (rat_of_int (projr (readSample dv (3 + i * 3))))"
            by simp
          then show ?thesis using Hp Hv by (elim disjE) (simp_all only:)
        qed
      qed
    next
      case 3
      have "s' = genesisCheck now (unat (dv ! 0)) s"
        using handleNotification_unknown [OF c True t 3, of now] h by simp
      then show ?thesis using hd by simp
    qed
  qed
  then show ?thesis by (simp add: H_def)
qed

lemma log_cells:
  assumes "reachable s"
  shows "\<forall>row\<in>set (csvRows s). \<forall>c\<in>set row.
           (\<exists>t. c = Str t) \<or> (\<exists>k::int. c = Num (rat_of_int k / 2))"
  using assms
proof (induction rule: reachable.induct)
  case constructed
  show ?case by (simp add: newCollector_def)
next
  case (notified s now dv s')
  show ?case
    by (rule log_cells_step [OF reachable_consistent [OF notified(1)] notified(2) notified(3)])
next
  case (stopped s)
  then show ?case by (simp add: stop_def)
next
  case (link s b)
  then show ?case by simp
qed

text \<open>
  Claim C7. The export is the rows of the log, the fields of a row joined by commas and
  the rows by newlines, the text of a field as it is: the text of a row is its first field
  followed by a comma and the field for every further field, the text of the log is its
  first row followed by a newline and the row for every further row, and a string field
  appears unchanged. A number prints as its decimal digits, with a leading minus sign when
  negative and a trailing \<open>.5\<close> for a half; every number in the log of a collector is an
  integer or a half-integer. A log of the ACC header and the two samples (1000, 5) and
  (1016, 6) exports as \<open>timestamp_ms,magnitude_ug\<close>, \<open>1000,5\<close>, \<open>1016,6\<close> on three lines, and
  that is the log of a new collector after one ACC packet with those samples.
\<close>

theorem export_format:
  "downloadCSV s =
     (case map (\<lambda>r. (case map cellToString r of
                        [] \<Rightarrow> []
                      | f # fs \<Rightarrow> f @ concat (map (\<lambda>g. CHR '','' # g) fs)))
             (csvRows s) of
        [] \<Rightarrow> []
      | l # ls \<Rightarrow> l @ concat (map (\<lambda>m. CHR 0x0A # m) ls)) \<and>
   cellToString (Str t) = t \<and>
   cellToString (Num (rat_of_nat n)) =
     (if n < 10 then [''0123456789'' ! n]
      else cellToString (Num (rat_of_nat (n div 10))) @ [''0123456789'' ! (n mod 10)]) \<and>
   (0 < x \<longrightarrow> cellToString (Num (- x)) = CHR ''-'' # cellToString (Num x)) \<and>
   cellToString (Num (rat_of_nat n + 1 / 2)) = cellToString (Num (rat_of_nat n)) @ ''.5'' \<and>
   (reachable s \<longrightarrow>
      (\<forall>row\<in>set (csvRows s). \<forall>c\<in>set row.
         (\<exists>t. c = Str t) \<or> (\<exists>k::int. c = Num (rat_of_int k / 2)))) \<and>
   (csvRows s = [] \<longrightarrow> downloadCSV s = []) \<and>
   (csvRows s \<noteq> [] \<longrightarrow>
      downloadCSV (s\<lparr>csvRows := csvRows s @ [r]\<rparr>) =
        downloadCSV s @ [CHR 0x0A] @ join '','' (map cellToString r)) \<and>
   join '','' (map cellToString [Str a, Num 5, Str b]) = a @ '','' @ ''5'' @ '','' @ b \<and>
   (csvRows s = [[Str ''timestamp_ms'', Str ''magnitude_ug''],
                 [Num 1000, Num 5], [Num 1016, Num 6]] \<longrightarrow>
      downloadCSV s =
        ''timestamp_ms,magnitude_ug'' @ [CHR 0x0A] @ ''1000,5'' @ [CHR 0x0A] @ ''1016,6'') \<and>
   (handleNotification 1000 [1, 0, 0, 5, 0, 0, 6, 0, 0] newCollector = Inr s \<longrightarrow>
      csvRows s = [[Str ''timestamp_ms'', Str ''magnitude_ug''],
                   [Num 1000, Num 5], [Num 1016, Num 6]])"
proof -
  have n1: "downloadCSV s =
     (case map (\<lambda>r. (case map cellToString r of
                        [] \<Rightarrow> []
                      | f # fs \<Rightarrow> f @ concat (map (\<lambda>g. CHR '','' # g) fs)))
             (csvRows s) of
        [] \<Rightarrow> []
      | l # ls \<Rightarrow> l @ concat (map (\<lambda>m. CHR 0x0A # m) ls))"
    by (rule downloadCSV_concat)
  have n2: "cellToString (Str t) = t"
    by (simp add: cellToString_def)
  have n3: "cellToString (Num (rat_of_nat n)) =
     (if n < 10 then [''0123456789'' ! n]
      else cellToString (Num (rat_of_nat (n div 10))) @ [''0123456789'' ! (n mod 10)])"
    using numToString_nat [of n] by (simp add: cellToString_def)
  have n4: "(0 < x \<longrightarrow> cellToString (Num (- x)) = CHR ''-'' # cellToString (Num x))"
    by (simp add: cellToString_def numToString_neg)
  have n5: "cellToString (Num (rat_of_nat n + 1 / 2)) = cellToString (Num (rat_of_nat n)) @ ''.5''"
    by (simp add: cellToString_def numToString_half_more)
  have n6: "(reachable s \<longrightarrow>
      (\<forall>row\<in>set (csvRows s). \<forall>c\<in>set row.
         (\<exists>t. c = Str t) \<or> (\<exists>k::int. c = Num (rat_of_int k / 2))))"
    using log_cells by blast
  have old: "(csvRows s = [] \<longrightarrow> downloadCSV s = []) \<and>
   (csvRows s \<noteq> [] \<longrightarrow>
      downloadCSV (s\<lparr>csvRows := csvRows s @ [r]\<rparr>) =
        downloadCSV s @ [CHR 0x0A] @ join '','' (map cellToString r)) \<and>
   join '','' (map cellToString [Str a, Num 5, Str b]) = a @ '','' @ ''5'' @ '','' @ b \<and>
   (csvRows s = [[Str ''timestamp_ms'', Str ''magnitude_ug''],
                 [Num 1000, Num 5], [Num 1016, Num 6]] \<longrightarrow>
      downloadCSV s =
        ''timestamp_ms,magnitude_ug'' @ [CHR 0x0A] @ ''1000,5'' @ [CHR 0x0A] @ ''1016,6'') \<and>
   (handleNotification 1000 [1, 0, 0, 5, 0, 0, 6, 0, 0] newCollector = Inr s \<longrightarrow>
      csvRows s = [[Str ''timestamp_ms'', Str ''magnitude_ug''],
                   [Num 1000, Num 5], [Num 1016, Num 6]])"
  proof (intro conjI impI)
    assume "csvRows s = []"
    then show "downloadCSV s = []" by (simp add: downloadCSV_def)
  next
    assume "csvRows s \<noteq> []"
    then show "downloadCSV (s\<lparr>csvRows := csvRows s @ [r]\<rparr>) =
          downloadCSV s @ [CHR 0x0A] @ join '','' (map cellToString r)"
      by (simp add: downloadCSV_def join_snoc)
  next
    show "join '','' (map cellToString [Str a, Num 5, Str b]) = a @ '','' @ ''5'' @ '','' @ b"
      by (simp add: cellToString_def numToString_examples)
  next
    assume "csvRows s = [[Str ''timestamp_ms'', Str ''magnitude_ug''],
                   [Num 1000, Num 5], [Num 1016, Num 6]]"
    then show "downloadCSV s =
          ''timestamp_ms,magnitude_ug'' @ [CHR 0x0A] @ ''1000,5'' @ [CHR 0x0A] @ ''1016,6''"
      by (simp add: downloadCSV_def cellToString_def numToString_examples)
  next
    let ?dv = "[1, 0, 0, 5, 0, 0, 6, 0, 0] :: DataView"
    assume h: "handleNotification 1000 ?dv newCollector = Inr s"
    have n: "sampleCount ?dv = 2" by (simp add: sampleCount_def byteLength_def)
    have v: "0 < sampleCount ?dv" "getUint8 ?dv 0 = Inr PACKET_TYPE_ACC"
      "getUint16 ?dv 1 True = Inr 0"
      by (simp_all add: n getUint8_def getUint16_def byteLength_def PACKET_TYPE_ACC_def)
    have g: "genesisTS s PACKET_TYPE_ACC = Some 1000"
      using handleNotification_genesis_step [OF h, of PACKET_TYPE_ACC] v
      by (simp add: n byteLength_def newCollector_def falsy_def)
    from handleNotification_acc [OF v, of 1000 newCollector] h g
    have "csvRows s = csvRows (genesisCheck 1000 PACKET_TYPE_ACC newCollector) @
             map (\<lambda>i. [Num (rat_of_int 1000 + rat_of_nat (0 * 5 + i) * 16),
                       Num (rat_of_int (projr (readSample ?dv (3 + i * 3))))])
               [0..<nat (sampleCount ?dv)]"
      by auto
    moreover have "[0..<nat (sampleCount ?dv)] = [0, 1]"
      by (simp add: n eval_nat_numeral upt_rec)
    moreover have "readSample ?dv 3 = Inr 5" "readSample ?dv 6 = Inr 6"
      by (simp_all add: readSample_in_range byteLength_def)
    ultimately show "csvRows s = [[Str ''timestamp_ms'', Str ''magnitude_ug''],
                     [Num 1000, Num 5], [Num 1016, Num 6]]"
      by (simp add: genesisCheck_def newCollector_def falsy_def)
  qed
  note o1 = old [THEN conjunct1]
    and o2 = old [THEN conjunct2, THEN conjunct1]
    and o3 = old [THEN conjunct2, THEN conjunct2, THEN conjunct1]
    and o4 = old [THEN conjunct2, THEN conjunct2, THEN conjunct2, THEN conjunct1]
    and o5 = old [THEN conjunct2, THEN conjunct2, THEN conjunct2, THEN conjunct2]
  from n1 n2 n3 n4 n5 n6 o1 o2 o3 o4 o5 show ?thesis by (intro conjI)
qed

theorem export_format_witness:
  "downloadCSV (projr (handleNotification 1000 [1, 0, 0, 5, 0, 0, 6, 0, 0] newCollector)) =
     ''timestamp_ms,magnitude_ug'' @ [CHR 0x0A] @ ''1000,5'' @ [CHR 0x0A] @ ''1016,6'' \<and>
   downloadCSV newCollector = [] \<and>
   downloadCSV
     ((projr (handleNotification 1000 [1, 0, 0, 5, 0, 0, 6, 0, 0] newCollector))
        \<lparr>csvRows :=
           csvRows (projr (handleNotification 1000 [1, 0, 0, 5, 0, 0, 6, 0, 0] newCollector)) @
           [[Str ''a,b'', Num 5, Str ''c'']]\<rparr>) =
     ''timestamp_ms,magnitude_ug'' @ [CHR 0x0A] @ ''1000,5'' @ [CHR 0x0A] @ ''1016,6'' @
     [CHR 0x0A] @ ''a,b,5,c'' \<and>
   reachable (projr (handleNotification 1000 [2, 0, 0, 7, 0, 0, 8, 0, 0] newCollector)) \<and>
   downloadCSV (projr (handleNotification 1000 [2, 0, 0, 7, 0, 0, 8, 0, 0] newCollector)) =
     ''timestamp_ms,green'' @ [CHR 0x0A] @ ''1000,7'' @ [CHR 0x0A] @ ''1002.5,8'' \<and>
   reachable (projr (handleNotification 1000 [3, 0, 0, 1, 2, 3] newCollector)) \<and>
   downloadCSV (projr (handleNotification 1000 [3, 0, 0, 1, 2, 3] newCollector)) =
     ''timestamp_ms,green'' \<and>
   (0 :: rat) < 5 / 2 \<and> cellToString (Num (- (5 / 2))) = ''-2.5''"
proof -
  have old: "downloadCSV (projr (handleNotification 1000 [1, 0, 0, 5, 0, 0, 6, 0, 0] newCollector)) =
     ''timestamp_ms,magnitude_ug'' @ [CHR 0x0A] @ ''1000,5'' @ [CHR 0x0A] @ ''1016,6'' \<and>
   downloadCSV newCollector = [] \<and>
   downloadCSV
     ((projr (handleNotification 1000 [1, 0, 0, 5, 0, 0, 6, 0, 0] newCollector))
        \<lparr>csvRows :=
           csvRows (projr (handleNotification 1000 [1, 0, 0, 5, 0, 0, 6, 0, 0] newCollector)) @
           [[Str ''a,b'', Num 5, Str ''c'']]\<rparr>) =
     ''timestamp_ms,magnitude_ug'' @ [CHR 0x0A] @ ''1000,5'' @ [CHR 0x0A] @ ''1016,6'' @
     [CHR 0x0A] @ ''a,b,5,c''"
  proof -
    obtain s where h: "handleNotification 1000 [1, 0, 0, 5, 0, 0, 6, 0, 0] newCollector = Inr s"
      using handleNotification_total by blast
    note t = export_format [of s _ _ _ "[Str ''a,b'', Num 5, Str ''c'']" "''a,b''" "''c''"]
    from t h
    have d: "downloadCSV s =
          ''timestamp_ms,magnitude_ug'' @ [CHR 0x0A] @ ''1000,5'' @ [CHR 0x0A] @ ''1016,6''"
      by blast
    from t h have ne: "csvRows s \<noteq> []" by auto
    from t ne
    have "downloadCSV (s\<lparr>csvRows := csvRows s @ [[Str ''a,b'', Num 5, Str ''c'']]\<rparr>) =
            downloadCSV s @ [CHR 0x0A] @ ''a,b'' @ '','' @ ''5'' @ '','' @ ''c''"
      by metis
    then have d2: "downloadCSV (s\<lparr>csvRows := csvRows s @ [[Str ''a,b'', Num 5, Str ''c'']]\<rparr>) =
       ''timestamp_ms,magnitude_ug'' @ [CHR 0x0A] @ ''1000,5'' @ [CHR 0x0A] @ ''1016,6'' @
       [CHR 0x0A] @ ''a,b,5,c''"
      by (simp add: d)
    have e: "downloadCSV newCollector = []"
      using export_format [of newCollector] by (simp add: newCollector_def)
    from d d2 e show ?thesis by (simp add: h)
  qed
  have num: "numToString 1000 = ''1000''" "numToString 7 = ''7''" "numToString 8 = ''8''"
    "numToString 1002 = ''1002''" "numToString 2 = ''2''"
    by (simp_all add: numToString_def natToString.simps digitChar_def)
  have half: "cellToString (Num (2005 / 2)) = ''1002.5''" "cellToString (Num (5 / 2)) = ''2.5''"
    using export_format [of _ _ 1002] export_format [of _ _ 2]
    by (simp_all add: cellToString_def num)
  have neg: "cellToString (Num (- (5 / 2))) = ''-2.5''"
    using export_format [of _ _ _ "5 / 2"] half(2) by simp
  let ?P = "[2, 0, 0, 7, 0, 0, 8, 0, 0] :: DataView"
  obtain sP where hP: "handleNotification 1000 ?P newCollector = Inr sP"
    using handleNotification_total by blast
  have rP: "reachable sP" using reachable.notified [OF reachable.constructed hP] .
  have nP: "sampleCount ?P = 2" by (simp add: sampleCount_def byteLength_def)
  have vP: "0 < sampleCount ?P" "getUint8 ?P 0 = Inr PACKET_TYPE_PPG"
    "getUint16 ?P 1 True = Inr 0"
    by (simp_all add: nP getUint8_def getUint16_def byteLength_def PACKET_TYPE_PPG_def)
  have gP: "genesisTS sP PACKET_TYPE_PPG = Some 1000"
    using handleNotification_genesis_step [OF hP, of PACKET_TYPE_PPG] vP
    by (simp add: nP byteLength_def newCollector_def falsy_def)
  from handleNotification_ppg [OF vP, of 1000 newCollector] hP gP
  have "csvRows sP = csvRows (genesisCheck 1000 PACKET_TYPE_PPG newCollector) @
           map (\<lambda>i. [Num (rat_of_int 1000 + rat_of_nat (0 * 5 + i) * (5 / 2)),
                     Num (rat_of_int (projr (readSample ?P (3 + i * 3))))])
             [0..<nat (sampleCount ?P)]"
    by auto
  moreover have "[0..<nat (sampleCount ?P)] = [0, 1]"
    by (simp add: nP eval_nat_numeral upt_rec)
  moreover have "readSample ?P 3 = Inr 7" "readSample ?P 6 = Inr 8"
    by (simp_all add: readSample_in_range byteLength_def)
  ultimately have cP: "csvRows sP =
      [[Str ''timestamp_ms'', Str ''green''], [Num 1000, Num 7], [Num (2005 / 2), Num 8]]"
    by (simp add: genesisCheck_def newCollector_def falsy_def types_distinct [symmetric])
  have dP: "downloadCSV sP =
     ''timestamp_ms,green'' @ [CHR 0x0A] @ ''1000,7'' @ [CHR 0x0A] @ ''1002.5,8''"
    using export_format [of sP, THEN conjunct1] half(1)
    by (simp add: cP cellToString_def num)
  let ?U = "[3, 0, 0, 1, 2, 3] :: DataView"
  have "consistent newCollector" using reachable_consistent [OF reachable.constructed] .
  then have hU: "handleNotification 1000 ?U newCollector = Inr (genesisCheck 1000 3 newCollector)"
    by (rule handleNotification_unknown)
      (simp_all add: sampleCount_def getUint8_def byteLength_def
        PACKET_TYPE_ACC_def PACKET_TYPE_PPG_def)
  have rU: "reachable (genesisCheck 1000 3 newCollector)"
    using reachable.notified [OF reachable.constructed hU] .
  have cU: "csvRows (genesisCheck 1000 3 newCollector) = [[Str ''timestamp_ms'', Str ''green'']]"
    by (simp add: genesisCheck_def newCollector_def falsy_def PACKET_TYPE_ACC_def)
  have dU: "downloadCSV (genesisCheck 1000 3 newCollector) = ''timestamp_ms,green''"
    using export_format [of "genesisCheck 1000 3 newCollector", THEN conjunct1]
    by (simp add: cU cellToString_def)
  have pos: "(0 :: rat) < 5 / 2" by simp
  from old rP dP rU dU pos neg show ?thesis by (simp add: hP hU)
qed

end
